theory Spec2Isabelle
  imports Main "HOL-Library.Word"
begin

unbundle bit_operations_syntax

section \<open>Common data\<close>

text \<open>
  A JavaScript exception is modelled by the message of the \<open>Error\<close> object that is
  thrown. Whatever an external library throws is modelled by its string rendering
  (what a template literal prints for it).
\<close>

datatype error = Error string

type_synonym byte = "8 word"

text \<open>The double quote character, which occurs in several literals of the source.\<close>

definition dq :: char where
  "dq = CHR 0x22"

section \<open>Diagram encoder: \<open>src/imageEncoder/plantumlEncoder.ts\<close>\<close>

text \<open>
  \<open>encode6bit(b)\<close>: the fixed alphabet. The argument is a JavaScript number; every call
  site passes a value masked with \<open>0x3f\<close>, a non-negative integer, so \<open>nat\<close> is used. The
  subtractions \<open>b -= 10\<close> and \<open>b -= 26\<close> are only reached when they do not go below zero.
\<close>

definition encode6bit :: "nat \<Rightarrow> string" where
  "encode6bit b =
     (if b < 10 then [char_of (48 + b)]
      else let b = b - 10 in
        if b < 26 then [char_of (65 + b)]
        else let b = b - 26 in
          if b < 26 then [char_of (97 + b)]
          else let b = b - 26 in
            if b = 0 then ''-''
            else if b = 1 then ''_''
            else ''?'')"

text \<open>
  The variables \<open>r\<close>, \<open>i\<close>, \<open>c1\<close> .. \<open>c4\<close> are declared once in \<open>encode\<close> and shared by the
  inner functions \<open>encode64\<close> and \<open>append3bytes\<close>: both assign \<open>r\<close>. They are kept in an
  explicit record that every function takes and returns.
\<close>

record enc_vars =
  r_v :: string
  i_v :: nat
  c1_v :: nat
  c2_v :: nat
  c3_v :: nat
  c4_v :: nat

text \<open>
  \<open>append3bytes(b1, b2, b3)\<close>. The arguments are character codes (\<open>charCodeAt\<close>, at most
  65535) or the literal 0; on such values JavaScript's 32-bit \<open>>>\<close>, \<open><<\<close>, \<open>&\<close> and \<open>|\<close>
  agree with the operations on \<open>nat\<close>. The function resets the shared \<open>r\<close> and returns it.
\<close>

definition append3bytes :: "nat \<Rightarrow> nat \<Rightarrow> nat \<Rightarrow> enc_vars \<Rightarrow> string \<times> enc_vars" where
  "append3bytes b1 b2 b3 s =
     (let s = s\<lparr>c1_v := drop_bit 2 b1\<rparr>;
          s = s\<lparr>c2_v := push_bit 4 (b1 AND 0x3) OR drop_bit 4 b2\<rparr>;
          s = s\<lparr>c3_v := push_bit 2 (b2 AND 0xf) OR drop_bit 6 b3\<rparr>;
          s = s\<lparr>c4_v := b3 AND 0x3f\<rparr>;
          s = s\<lparr>r_v := ''''\<rparr>;
          s = s\<lparr>r_v := r_v s @ encode6bit (c1_v s AND 0x3f)\<rparr>;
          s = s\<lparr>r_v := r_v s @ encode6bit (c2_v s AND 0x3f)\<rparr>;
          s = s\<lparr>r_v := r_v s @ encode6bit (c3_v s AND 0x3f)\<rparr>;
          s = s\<lparr>r_v := r_v s @ encode6bit (c4_v s AND 0x3f)\<rparr>
      in (r_v s, s))"

text \<open>
  One iteration of the loop of \<open>encode64\<close>. In \<open>r += append3bytes(...)\<close> the old value of
  \<open>r\<close> is read before the call, the call overwrites \<open>r\<close>, and the assignment then stores
  the old value followed by the returned characters.
\<close>

definition encode64_body :: "nat list \<Rightarrow> enc_vars \<Rightarrow> enc_vars" where
  "encode64_body data s =
     (let lval = r_v s;
          i = i_v s;
          call = (if i + 2 = length data then append3bytes (data ! i) (data ! (i + 1)) 0 s
                  else if i + 1 = length data then append3bytes (data ! i) 0 0 s
                  else append3bytes (data ! i) (data ! (i + 1)) (data ! (i + 2)) s);
          s = (snd call)\<lparr>r_v := lval @ fst call\<rparr>
      in s\<lparr>i_v := i_v s + 3\<rparr>)"

function encode64_loop :: "nat list \<Rightarrow> enc_vars \<Rightarrow> enc_vars" where
  "encode64_loop data s =
     (if i_v s < length data then encode64_loop data (encode64_body data s) else s)"
  by pat_completeness auto
termination
  by (relation "measure (\<lambda>(data, s). length data - i_v s)")
    (auto simp: encode64_body_def append3bytes_def Let_def)

declare encode64_loop.simps [simp del]

text \<open>\<open>encode64(data)\<close>: \<open>data\<close> is a string, given by its character codes.\<close>

definition encode64 :: "nat list \<Rightarrow> enc_vars \<Rightarrow> string \<times> enc_vars" where
  "encode64 data s =
     (let s = s\<lparr>r_v := ''''\<rparr>;
          s = s\<lparr>i_v := 0\<rparr>;
          s = encode64_loop data s
      in (r_v s, s))"

text \<open>
  The state of the shared variables when \<open>encode\<close> is entered: \<open>r = ""\<close>, \<open>i = 0\<close>; \<open>c1\<close> ..
  \<open>c4\<close> are declared without a value and are written before they are read.
\<close>

definition init_vars :: enc_vars where
  "init_vars = \<lparr>r_v = '''', i_v = 0, c1_v = 0, c2_v = 0, c3_v = 0, c4_v = 0\<rparr>"

text \<open>
  \<open>compressAndEncode(pumlText)\<close>. \<open>TextEncoder.encode\<close> and \<open>pako.deflateRaw\<close> are external:
  they are parameters. \<open>deflateRaw\<close> returns the compressed bytes or throws; \<open>Inl e\<close> carries
  the rendering of the thrown value. Each compressed byte becomes one character of
  \<open>deflated\<close> (\<open>String.fromCharCode\<close>), read back by \<open>charCodeAt\<close> in \<open>encode64\<close>.
\<close>

definition compressAndEncode ::
  "('t \<Rightarrow> byte list) \<Rightarrow> (byte list \<Rightarrow> string + byte list) \<Rightarrow> 't \<Rightarrow> error + string" where
  "compressAndEncode textEncoder deflateRaw pumlText =
     (let escaped = textEncoder pumlText in
      case deflateRaw escaped of
        Inl e \<Rightarrow> Inl (Error (''Pako compression failed: '' @ [dq] @ '' '' @ e))
      | Inr compressed \<Rightarrow>
          let deflated = map unat compressed;
              encoded = fst (encode64 deflated init_vars)
          in Inr encoded)"

definition encode ::
  "('t \<Rightarrow> byte list) \<Rightarrow> (byte list \<Rightarrow> string + byte list) \<Rightarrow> 't \<Rightarrow> error + string" where
  "encode textEncoder deflateRaw pumlText = compressAndEncode textEncoder deflateRaw pumlText"


section \<open>Configuration: \<open>config.js\<close>\<close>

definition WELL_KNOWN_TYPE_PREFIX :: string where
  "WELL_KNOWN_TYPE_PREFIX = ''google.protobuf.''"

definition COMPOSITION :: string where
  "COMPOSITION = ''--*''"

definition AGGREGATION :: string where
  "AGGREGATION = ''--o''"

definition ASSOCIATION :: string where
  "ASSOCIATION = ''-->''"

definition OPTIONAL :: string where
  "OPTIONAL = [dq] @ ''0..1'' @ [dq]"

definition REQUIRED :: string where
  "REQUIRED = [dq] @ ''1'' @ [dq]"

definition MULTIPLE :: string where
  "MULTIPLE = [dq] @ ''0..*'' @ [dq]"

section \<open>The schema tree handed over by the external parser\<close>

text \<open>
  Strings of the tree are identifiers; a JavaScript string is falsy exactly when it is
  empty, so \<open>!x\<close> on a string is \<open>x = []\<close>, and a missing string property is modelled by the
  empty string. \<open>pfield\<close> holds the properties of a protobufjs field that the code reads:
  \<open>partOf\<close> is the oneof the field belongs to (given by its name), \<open>rule\<close> the declared
  rule if any.
\<close>

record pfield =
  field_name :: string
  field_type :: string
  field_map :: bool
  field_keyType :: string
  field_repeated :: bool
  field_rule :: "string option"
  field_partOf :: "string option"
  field_reserved :: bool

record pmethod =
  method_name :: string
  requestType :: string
  responseType :: string

text \<open>
  A node of the tree: a message (\<open>protobuf.Type\<close>: name, \<open>fieldsArray\<close>, \<open>oneofs\<close> with the
  \<open>fieldsArray\<close> of each, \<open>nested\<close>), an enumeration (\<open>protobuf.Enum\<close>: name and the keys of
  \<open>values\<close>, if present), a service (\<open>protobuf.Service\<close>: name and \<open>methods\<close>, if present)
  or a plain namespace (\<open>nested\<close>). Objects keyed by name are association lists in
  insertion order. An absent \<open>nested\<close> and an empty one behave alike in every function
  below (nothing to iterate over), so both are the empty list.
\<close>

datatype node =
    TypeNode string "pfield list" "(string \<times> pfield list) list" "(string \<times> node) list"
  | EnumNode string "string list option"
  | ServiceNode string "pmethod list option"
  | NamespaceNode "(string \<times> node) list"

fun nested_of :: "node \<Rightarrow> (string \<times> node) list" where
  "nested_of (TypeNode name fs os nested) = nested"
| "nested_of (NamespaceNode nested) = nested"
| "nested_of (EnumNode name vs) = []"
| "nested_of (ServiceNode name ms) = []"

fun isType :: "node \<Rightarrow> bool" where
  "isType (TypeNode name fs os nested) = True"
| "isType _ = False"

fun isEnum :: "node \<Rightarrow> bool" where
  "isEnum (EnumNode name vs) = True"
| "isEnum _ = False"

fun isService :: "node \<Rightarrow> bool" where
  "isService (ServiceNode name ms) = True"
| "isService _ = False"

section \<open>String operations of the JavaScript library\<close>

text \<open>\<open>Array.prototype.join\<close>.\<close>

fun join_array :: "string \<Rightarrow> string list \<Rightarrow> string" where
  "join_array sep [] = []"
| "join_array sep [x] = x"
| "join_array sep (x # y # ys) = x @ sep @ join_array sep (y # ys)"

text \<open>\<open>String.prototype.split\<close> with a one-character separator.\<close>

fun split_on :: "char \<Rightarrow> string \<Rightarrow> string list" where
  "split_on c [] = [[]]"
| "split_on c (x # xs) =
     (if x = c then [] # split_on c xs
      else case split_on c xs of p # ps \<Rightarrow> (x # p) # ps | [] \<Rightarrow> [[x]])"

text \<open>
  \<open>toLowerCase\<close> on the characters with codes below 256: the letters A-Z and the
  Latin-1 capital letters (codes 192-214 and 216-222) are moved up by 32, every other
  character is unchanged. \<open>upper_char\<close> is \<open>toUpperCase\<close> on the letters a-z, the only
  characters the source applies it to (the letter captured by \<open>/_([a-z])/\<close>).
\<close>

definition lower_char :: "char \<Rightarrow> char" where
  "lower_char c =
     (let n = of_char c :: nat in
      if (65 \<le> n \<and> n \<le> 90) \<or> (192 \<le> n \<and> n \<le> 214) \<or> (216 \<le> n \<and> n \<le> 222)
      then char_of (n + 32) else c)"

definition upper_char :: "char \<Rightarrow> char" where
  "upper_char c = (let n = of_char c :: nat in if 97 \<le> n \<and> n \<le> 122 then char_of (n - 32) else c)"

definition toLowerCase :: "string \<Rightarrow> string" where
  "toLowerCase s = map lower_char s"

definition startsWith :: "string \<Rightarrow> string \<Rightarrow> bool" where
  "startsWith s p = (take (length p) s = p)"

text \<open>
  \<open>String.prototype.trim\<close>: it strips white space and line terminators; among the
  characters with codes below 256 these are tab, line feed, vertical tab, form feed,
  carriage return, space and the no-break space (160).
\<close>

definition is_space :: "char \<Rightarrow> bool" where
  "is_space c = (of_char c \<in> {9, 10, 11, 12, 13, 32, 160 :: nat})"

definition trim :: "string \<Rightarrow> string" where
  "trim s = rev (dropWhile is_space (rev (dropWhile is_space s)))"

section \<open>Schema graph resolver: \<open>src/protoParser.js\<close>\<close>

record parser =
  knownTypes :: "string set"
  knownEnumTypes :: "string set"

definition generateEnumName :: "string \<Rightarrow> string \<Rightarrow> string" where
  "generateEnumName enumName parentName =
     (if parentName \<noteq> [] then parentName @ ''_'' @ enumName else enumName)"

definition collectEnumType :: "string \<Rightarrow> string \<Rightarrow> string \<Rightarrow> parser \<Rightarrow> error + parser" where
  "collectEnumType enumName parentName key p =
     (if enumName = [] then Inl (Error (''Enum at key '' @ [CHR 0x27] @ key @ [CHR 0x27] @ '' has no name''))
      else
        let originalName = enumName;
            prefixedName = generateEnumName enumName parentName;
            p = p\<lparr>knownTypes := insert originalName (knownTypes p)\<rparr>;
            p = p\<lparr>knownEnumTypes := insert originalName (knownEnumTypes p)\<rparr>
        in if parentName \<noteq> [] then
             let p = p\<lparr>knownTypes := insert prefixedName (knownTypes p)\<rparr>;
                 p = p\<lparr>knownEnumTypes := insert prefixedName (knownEnumTypes p)\<rparr>
             in Inr p
           else Inr p)"

text \<open>
  \<open>collectTypes(ns, parentName)\<close> with its loop over the entries of \<open>ns.nested\<close>, and
  \<open>collectMessageType\<close>. An error thrown while an entry is handled is caught and thrown
  again with the key of the entry. A service has no \<open>nested\<close> and is skipped.
\<close>

function collectTypes :: "node \<Rightarrow> string \<Rightarrow> parser \<Rightarrow> error + parser"
  and collectTypes_loop :: "(string \<times> node) list \<Rightarrow> string \<Rightarrow> parser \<Rightarrow> error + parser"
  and collectMessageType :: "string \<Rightarrow> (string \<times> node) list \<Rightarrow> string \<Rightarrow> parser \<Rightarrow> error + parser"
where
  "collectTypes ns parentName p = collectTypes_loop (nested_of ns) parentName p"
| "collectTypes_loop [] parentName p = Inr p"
| "collectTypes_loop ((key, v) # rest) parentName p =
     (case (case v of
              TypeNode name fs os nested \<Rightarrow> collectMessageType name nested key p
            | EnumNode name vs \<Rightarrow> collectEnumType name parentName key p
            | ServiceNode name ms \<Rightarrow> Inr p
            | NamespaceNode nested \<Rightarrow> collectTypes v parentName p) of
        Inl (Error m) \<Rightarrow>
          Inl (Error (''Failed to collect types from '' @ [CHR 0x27] @ key @ [CHR 0x27] @ '': '' @ m))
      | Inr p' \<Rightarrow> collectTypes_loop rest parentName p')"
| "collectMessageType name nested key p =
     (if name = [] then
        Inl (Error (''Type at key '' @ [CHR 0x27] @ key @ [CHR 0x27] @ '' has no name''))
      else collectTypes_loop nested name (p\<lparr>knownTypes := insert name (knownTypes p)\<rparr>))"
  by pat_completeness auto
termination
  apply (relation "measure (\<lambda>x. case x of
         Inl (ns, _) \<Rightarrow> 2 * size ns + 1
       | Inr (Inl (es, _)) \<Rightarrow> 2 * size_list (size_prod (\<lambda>_. 0) size) es
       | Inr (Inr (_, es, _)) \<Rightarrow> 2 * size_list (size_prod (\<lambda>_. 0) size) es + 1)")
       apply simp
  subgoal for ns by (cases ns) simp_all
     apply simp_all
  done

text \<open>\<open>extractFieldType(field, parentTypeName)\<close>; \<open>None\<close> is a null or undefined field.\<close>

definition extractFieldType :: "pfield option \<Rightarrow> string \<Rightarrow> error + string" where
  "extractFieldType field parentTypeName =
     (case field of
        None \<Rightarrow> Inl (Error ''Field cannot be null or undefined'')
      | Some f \<Rightarrow>
          if field_type f = [] then
            Inl (Error (''Field '' @ (if field_name f \<noteq> [] then field_name f else ''unknown'')
                        @ '' has no type defined''))
          else Inr (field_type f))"

definition isWellKnownType :: "string \<Rightarrow> bool" where
  "isWellKnownType fieldType = (fieldType \<noteq> [] \<and> startsWith fieldType WELL_KNOWN_TYPE_PREFIX)"

text \<open>
  \<open>str.replace(/_([a-z])/g, (match, letter) => letter.toUpperCase())\<close>: the string is
  scanned from the left; an underscore followed by a lower-case letter is replaced,
  together with that letter, by the upper-case letter, and the scan goes on after the
  letter; any other character is copied.
\<close>

definition is_lower_az :: "char \<Rightarrow> bool" where
  "is_lower_az c = (97 \<le> (of_char c :: nat) \<and> (of_char c :: nat) \<le> 122)"

fun replace_underscore_letter :: "string \<Rightarrow> string" where
  "replace_underscore_letter [] = []"
| "replace_underscore_letter [c] = [c]"
| "replace_underscore_letter (c # d # cs) =
     (if c = CHR ''_'' \<and> is_lower_az d then upper_char d # replace_underscore_letter cs
      else c # replace_underscore_letter (d # cs))"

definition toCamelCase :: "string \<Rightarrow> string" where
  "toCamelCase str = (if str = [] then str else replace_underscore_letter str)"

definition resolveTypeName :: "parser \<Rightarrow> string \<Rightarrow> string \<Rightarrow> error + string" where
  "resolveTypeName p fieldType parentTypeName =
     (if fieldType = [] then Inl (Error ''Field type must be a non-empty string'')
      else if fieldType \<in> knownTypes p then Inr fieldType
      else if parentTypeName \<noteq> [] then
        let nestedEnumName = parentTypeName @ ''_'' @ fieldType
        in if nestedEnumName \<in> knownTypes p then Inr nestedEnumName else Inr fieldType
      else Inr fieldType)"

definition isOptionalField :: "pfield \<Rightarrow> bool" where
  "isOptionalField f = (field_rule f = Some ''optional'' \<or> field_partOf f \<noteq> None)"

definition getCardinality :: "pfield option \<Rightarrow> string" where
  "getCardinality field =
     (case field of
        None \<Rightarrow> REQUIRED
      | Some f \<Rightarrow>
          if field_map f \<or> field_repeated f then MULTIPLE
          else if isOptionalField f then OPTIONAL
          else REQUIRED)"

text \<open>\<open>getRelationshipType(resolvedType)\<close>; \<open>None\<close> is a null or undefined argument.\<close>

definition getRelationshipType :: "parser \<Rightarrow> string option \<Rightarrow> string" where
  "getRelationshipType p resolvedType =
     (case resolvedType of
        None \<Rightarrow> COMPOSITION
      | Some t \<Rightarrow>
          if t = [] then COMPOSITION
          else if t \<in> knownEnumTypes p then COMPOSITION
          else AGGREGATION)"

section \<open>Diagram emitter: class \<open>PlantUMLGenerator\<close> in \<open>src/index.js\<close>\<close>

text \<open>
  The mutable members of a generator: the output lines, the relationship lines in
  insertion order, and the set that tracks which relationship lines were added.
\<close>

record gen =
  lines :: "string list"
  relations :: "string list"
  relationSet :: "string set"

definition push_line :: "string \<Rightarrow> gen \<Rightarrow> gen" where
  "push_line l g = g\<lparr>lines := lines g @ [l]\<rparr>"

definition hasDirectContent :: "node \<Rightarrow> bool" where
  "hasDirectContent ns = list_ex (\<lambda>e. isType (snd e) \<or> isEnum (snd e) \<or> isService (snd e)) (nested_of ns)"

text \<open>
  \<open>countContentAtLevels(ns)\<close>: \<open>traverse\<close> increments the counter \<open>contentLevels\<close>, which is
  passed through here. Only entries that have a \<open>nested\<close> and are not messages are entered.
\<close>

function traverse :: "node \<Rightarrow> nat \<Rightarrow> nat"
  and traverse_loop :: "(string \<times> node) list \<Rightarrow> nat \<Rightarrow> nat"
where
  "traverse ns contentLevels =
     traverse_loop (nested_of ns) (if hasDirectContent ns then contentLevels + 1 else contentLevels)"
| "traverse_loop [] contentLevels = contentLevels"
| "traverse_loop ((key, v) # rest) contentLevels =
     traverse_loop rest
       (if nested_of v \<noteq> [] \<and> \<not> isType v then traverse v contentLevels else contentLevels)"
  by pat_completeness auto
termination
  apply (relation "measure (\<lambda>x. case x of
         Inl (ns, _) \<Rightarrow> 2 * size ns + 1
       | Inr (es, _) \<Rightarrow> 2 * size_list (size_prod (\<lambda>_. 0) size) es)")
     apply simp
  subgoal for ns by (cases ns) simp_all
   apply simp_all
  done

definition countContentAtLevels :: "node \<Rightarrow> nat" where
  "countContentAtLevels ns = traverse ns 0"

definition meaningfulNames :: "string list" where
  "meaningfulNames =
     [''api'', ''service'', ''event'', ''model'', ''dto'', ''proto'', ''message'', ''client'', ''server'']"

text \<open>
  \<open>shouldUsePackageBlock(packageParts, contentLevels, targetNamespace)\<close>. Reading the
  last element of an empty array gives \<open>undefined\<close>, and \<open>toLowerCase\<close> on it throws.
\<close>

definition shouldUsePackageBlock :: "string list \<Rightarrow> nat \<Rightarrow> node \<Rightarrow> error + bool" where
  "shouldUsePackageBlock packageParts contentLevels targetNamespace =
     (if contentLevels > 1 then Inr True
      else if packageParts = [] then
        Inl (Error (''Cannot read properties of undefined (reading '' @ [CHR 0x27]
                     @ ''toLowerCase'' @ [CHR 0x27] @ '')''))
      else
        let lastPart = last packageParts in
        if toLowerCase lastPart \<in> set meaningfulNames then Inr True
        else if length packageParts \<ge> 3 \<and> length packageParts \<le> 6 then Inr True
        else if length packageParts \<le> 2 then Inr False
        else if length packageParts > 8 then Inr False
        else Inr True)"

definition getOptimalPackageName :: "string list \<Rightarrow> bool \<Rightarrow> string" where
  "getOptimalPackageName packageParts shouldUsePackage =
     (if \<not> shouldUsePackage then []
      else if length packageParts \<le> 6 then join_array ''.'' packageParts
      else
        let lastPart = last packageParts;
            meaningfulNames = [''api'', ''service'', ''event'', ''model'', ''dto'', ''proto'', ''message'']
        in if toLowerCase lastPart \<in> set meaningfulNames then
             let startIdx = length packageParts - 4
             in join_array ''.'' (drop startIdx packageParts)
           else if length packageParts > 8 then
             hd packageParts @ ''...'' @ join_array ''.'' (drop (length packageParts - 3) packageParts)
           else join_array ''.'' packageParts)"

text \<open>
  \<open>findContentNamespace(ns)\<close>. The comparison \<open>found !== value\<close> is on object identity;
  \<open>found\<close> is \<open>value\<close> itself or a node strictly inside it, so it agrees with inequality
  of the values.
\<close>

function findContentNamespace :: "node \<Rightarrow> node"
  and findContentNamespace_loop :: "(string \<times> node) list \<Rightarrow> node option"
where
  "findContentNamespace ns =
     (if nested_of ns = [] then ns
      else if hasDirectContent ns then ns
      else case findContentNamespace_loop (nested_of ns) of
             Some found \<Rightarrow> found
           | None \<Rightarrow> ns)"
| "findContentNamespace_loop [] = None"
| "findContentNamespace_loop ((key, v) # rest) =
     (if nested_of v \<noteq> [] then
        let found = findContentNamespace v
        in if found \<noteq> v then Some found else findContentNamespace_loop rest
      else findContentNamespace_loop rest)"
  by pat_completeness auto
termination
  apply (relation "measure (\<lambda>x. case x of
         Inl ns \<Rightarrow> 2 * size ns + 1
       | Inr es \<Rightarrow> 2 * size_list (size_prod (\<lambda>_. 0) size) es)")
      apply simp
  subgoal for ns by (cases ns) simp_all
    apply simp_all
  done

definition analyzePackageStructure :: "node \<Rightarrow> string \<Rightarrow> error + (bool \<times> string \<times> node)" where
  "analyzePackageStructure root packageName =
     (let targetNamespace = findContentNamespace root;
          packageParts = split_on CHR ''.'' packageName;
          contentLevels = countContentAtLevels root
      in case shouldUsePackageBlock packageParts contentLevels targetNamespace of
           Inl e \<Rightarrow> Inl e
         | Inr shouldUsePackage \<Rightarrow>
             let displayName = getOptimalPackageName packageParts shouldUsePackage
             in Inr (shouldUsePackage, displayName, targetNamespace))"

text \<open>
  \<open>createRelationship(field, fieldType, parentTypeName)\<close>: the relationship line is
  added to \<open>relationSet\<close> and \<open>relations\<close> only if the set does not have it yet.
\<close>

definition relationshipString :: "string \<Rightarrow> string \<Rightarrow> string \<Rightarrow> string \<Rightarrow> string" where
  "relationshipString parentTypeName relationshipType cardinality resolvedType =
     parentTypeName @ '' '' @ relationshipType @ '' '' @ cardinality @ '' '' @ resolvedType"

definition add_relation :: "string \<Rightarrow> gen \<Rightarrow> gen" where
  "add_relation rel g =
     (if rel \<notin> relationSet g then
        g\<lparr>relationSet := insert rel (relationSet g), relations := relations g @ [rel]\<rparr>
      else g)"

definition createRelationship :: "parser \<Rightarrow> pfield \<Rightarrow> string \<Rightarrow> string \<Rightarrow> gen \<Rightarrow> error + gen" where
  "createRelationship p field fieldType parentTypeName g =
     (case resolveTypeName p fieldType parentTypeName of
        Inl e \<Rightarrow> Inl e
      | Inr resolvedType \<Rightarrow>
          if resolvedType \<in> knownTypes p then
            let cardinality = getCardinality (Some field);
                relationshipType = getRelationshipType p (Some resolvedType)
            in Inr (add_relation
                     (relationshipString parentTypeName relationshipType cardinality resolvedType) g)
          else Inr g)"

definition processMessageField :: "parser \<Rightarrow> pfield \<Rightarrow> string \<Rightarrow> gen \<Rightarrow> error + gen" where
  "processMessageField p field parentTypeName g =
     (case extractFieldType (Some field) parentTypeName of
        Inl e \<Rightarrow> Inl e
      | Inr fieldType \<Rightarrow>
          let displayType = fieldType;
              displayType = (if field_map field then
                  ''map<'' @ (if field_keyType field \<noteq> [] then field_keyType field else ''string'')
                    @ '', '' @ fieldType @ ''>''
                else displayType);
              displayType = (if field_repeated field \<and> \<not> field_map field
                then displayType @ '' [ ]'' else displayType);
              displayType = (if isOptionalField field then displayType @ '' ?'' else displayType);
              fieldName = toCamelCase (field_name field);
              g = push_line (''  '' @ fieldName @ '' : '' @ displayType) g
          in if \<not> isWellKnownType fieldType then createRelationship p field fieldType parentTypeName g
             else Inr g)"

text \<open>
  The loop over the fields of a message in \<open>processMessageType\<close>: an error of a field is
  caught and thrown again with the name of the message.
\<close>

fun processFields :: "parser \<Rightarrow> pfield list \<Rightarrow> string \<Rightarrow> gen \<Rightarrow> error + gen" where
  "processFields p [] name g = Inr g"
| "processFields p (field # rest) name g =
     (case processMessageField p field name g of
        Inl (Error m) \<Rightarrow> Inl (Error (''Failed to process field in '' @ name @ '': '' @ m))
      | Inr g' \<Rightarrow> processFields p rest name g')"

text \<open>
  \<open>processOneofNotes(messageType)\<close>, given the name and the oneofs of the message.
  \<open>oneofNote\<close> is the function applied to each entry of \<open>oneofs\<close>.
\<close>

definition oneofNote :: "string \<Rightarrow> string \<times> pfield list \<Rightarrow> gen \<Rightarrow> gen" where
  "oneofNote name entry g =
     (let fieldsArray = snd entry in
      if length fieldsArray > 1 then
        let fieldNames = join_array '' or '' (map (\<lambda>field. toCamelCase (field_name field)) fieldsArray);
            g = push_line (''note right of '' @ name) g;
            g = push_line (''  Only one of '' @ fieldNames @ '' is set'') g;
            g = push_line ''end note'' g
        in g
      else g)"

definition processOneofNotes :: "string \<Rightarrow> (string \<times> pfield list) list \<Rightarrow> gen \<Rightarrow> gen" where
  "processOneofNotes name oneofs g = (if oneofs = [] then g else fold (oneofNote name) oneofs g)"

definition processEnumType :: "string \<Rightarrow> string list option \<Rightarrow> string \<Rightarrow> gen \<Rightarrow> error + gen" where
  "processEnumType name values parentName g =
     (if name = [] then Inl (Error ''Enum type must have a valid name'')
      else case values of
        None \<Rightarrow> Inl (Error (''Enum '' @ name @ '' must have valid values''))
      | Some vs \<Rightarrow>
          let enumName = name;
              g = push_line (''enum '' @ enumName @ '' {'') g;
              g = fold (\<lambda>enumValue g. if enumValue \<noteq> [] then push_line (''  '' @ enumValue) g else g) vs g;
              g = push_line ''}'' g
          in Inr g)"

fun processMethods :: "string \<Rightarrow> pmethod list \<Rightarrow> gen \<Rightarrow> error + gen" where
  "processMethods name [] g = Inr g"
| "processMethods name (m # ms) g =
     (if method_name m = [] then Inl (Error (''Invalid method in service '' @ name))
      else
        let requestType = (if requestType m \<noteq> [] then requestType m else ''Unknown'');
            responseType = (if responseType m \<noteq> [] then responseType m else ''Unknown'');
            g = push_line (''  '' @ method_name m @ ''('' @ requestType @ '') : '' @ responseType) g;
            requestRelation = name @ '' '' @ ASSOCIATION @ '' '' @ requestType;
            responseRelation = name @ '' '' @ ASSOCIATION @ '' '' @ responseType;
            g = add_relation requestRelation g;
            g = add_relation responseRelation g
        in processMethods name ms g)"

definition processServiceType :: "string \<Rightarrow> pmethod list option \<Rightarrow> gen \<Rightarrow> error + gen" where
  "processServiceType name methods g =
     (if name = [] then Inl (Error ''Service type must have a valid name'')
      else case methods of
        None \<Rightarrow> Inl (Error (''stereotype '' @ name @ '' must have valid methods''))
      | Some ms \<Rightarrow>
          (case processMethods name ms (push_line (''stereotype '' @ name @ '' {'') g) of
             Inl e \<Rightarrow> Inl e
           | Inr g \<Rightarrow> Inr (push_line ''}'' g)))"

text \<open>
  \<open>processNamespace(ns, parentName)\<close> with its loop over the entries of \<open>ns.nested\<close>, and
  \<open>processMessageType\<close>, given the name, \<open>fieldsArray\<close>, \<open>oneofs\<close> and \<open>nested\<close> of the
  message. The call \<open>processNamespace(messageType, "")\<close> at the end of a message is the
  loop over \<open>nested\<close>.
\<close>

function processNamespace :: "parser \<Rightarrow> node \<Rightarrow> string \<Rightarrow> gen \<Rightarrow> error + gen"
  and processNamespace_loop :: "parser \<Rightarrow> (string \<times> node) list \<Rightarrow> string \<Rightarrow> gen \<Rightarrow> error + gen"
  and processMessageType ::
    "parser \<Rightarrow> string \<Rightarrow> pfield list \<Rightarrow> (string \<times> pfield list) list \<Rightarrow> (string \<times> node) list
       \<Rightarrow> gen \<Rightarrow> error + gen"
where
  "processNamespace p ns parentName g = processNamespace_loop p (nested_of ns) parentName g"
| "processNamespace_loop p [] parentName g = Inr g"
| "processNamespace_loop p ((key, v) # rest) parentName g =
     (case (case v of
              TypeNode name fs os nested \<Rightarrow> processMessageType p name fs os nested g
            | EnumNode name vs \<Rightarrow> processEnumType name vs parentName g
            | ServiceNode name ms \<Rightarrow> processServiceType name ms g
            | NamespaceNode nested \<Rightarrow> processNamespace p v parentName g) of
        Inl (Error m) \<Rightarrow> Inl (Error (''Failed to process '' @ key @ '': '' @ m))
      | Inr g' \<Rightarrow> processNamespace_loop p rest parentName g')"
| "processMessageType p name fieldsArray oneofs nested g =
     (if name = [] then Inl (Error ''Message type must have a valid name'')
      else
        let hasNestedTypes = list_ex (\<lambda>e. isEnum (snd e)) nested;
            g = (if hasNestedTypes then push_line (''component '' @ [dq] @ name @ '' Types'' @ [dq] @ '' {'') g
                 else g);
            g = push_line (''object '' @ name @ '' {'') g
        in case processFields p (filter (\<lambda>field. \<not> field_reserved field) fieldsArray) name g of
             Inl e \<Rightarrow> Inl e
           | Inr g \<Rightarrow>
               let g = push_line ''}'' g;
                   g = processOneofNotes name oneofs g
               in (case processNamespace_loop p nested [] g of
                     Inl e \<Rightarrow> Inl e
                   | Inr g \<Rightarrow> Inr (if hasNestedTypes then push_line ''}'' g else g)))"
  by pat_completeness auto
termination
  apply (relation "measure (\<lambda>x. case x of
         Inl (_, ns, _) \<Rightarrow> 2 * size ns + 1
       | Inr (Inl (_, es, _)) \<Rightarrow> 2 * size_list (size_prod (\<lambda>_. 0) size) es
       | Inr (Inr (_, _, _, _, es, _)) \<Rightarrow> 2 * size_list (size_prod (\<lambda>_. 0) size) es + 1)")
       apply simp
  subgoal for p ns by (cases ns) simp_all
     apply simp_all
  done

text \<open>
  \<open>collectAllContent(ns)\<close>: the messages, enumerations and services of a namespace and
  of the namespaces below it, each kind in the order of the traversal.
\<close>

record content =
  messages :: "node list"
  enums :: "node list"
  services :: "node list"

function collectAllContent :: "node \<Rightarrow> content"
  and collectAllContent_loop :: "(string \<times> node) list \<Rightarrow> content \<Rightarrow> content"
where
  "collectAllContent ns =
     (let content = \<lparr>messages = [], enums = [], services = []\<rparr>
      in if nested_of ns = [] then content else collectAllContent_loop (nested_of ns) content)"
| "collectAllContent_loop [] c = c"
| "collectAllContent_loop ((key, v) # rest) c =
     collectAllContent_loop rest
       (case v of
          TypeNode name fs os nested \<Rightarrow> c\<lparr>messages := messages c @ [v]\<rparr>
        | EnumNode name vs \<Rightarrow> c\<lparr>enums := enums c @ [v]\<rparr>
        | ServiceNode name ms \<Rightarrow> c\<lparr>services := services c @ [v]\<rparr>
        | NamespaceNode nested \<Rightarrow>
            if nested \<noteq> [] then
              let nestedContent = collectAllContent v
              in c\<lparr>messages := messages c @ messages nestedContent,
                    enums := enums c @ enums nestedContent,
                    services := services c @ services nestedContent\<rparr>
            else c)"
  by pat_completeness auto
termination
  apply (relation "measure (\<lambda>x. case x of
         Inl ns \<Rightarrow> 2 * size ns + 1
       | Inr (es, _) \<Rightarrow> 2 * size_list (size_prod (\<lambda>_. 0) size) es)")
     apply simp
  subgoal for ns by (cases ns) simp_all
   apply simp_all
  done

text \<open>
  The three loops of \<open>processNamespaceFlat\<close>. The lists hold nodes of the matching kind
  only, so the last case of each loop is never taken.
\<close>

fun processMessages :: "parser \<Rightarrow> node list \<Rightarrow> gen \<Rightarrow> error + gen" where
  "processMessages p [] g = Inr g"
| "processMessages p (v # vs) g =
     (case (case v of TypeNode name fs os nested \<Rightarrow> processMessageType p name fs os nested g
                    | _ \<Rightarrow> Inr g) of
        Inl e \<Rightarrow> Inl e
      | Inr g' \<Rightarrow> processMessages p vs g')"

fun processEnums :: "node list \<Rightarrow> gen \<Rightarrow> error + gen" where
  "processEnums [] g = Inr g"
| "processEnums (v # vs) g =
     (case (case v of EnumNode name values \<Rightarrow> processEnumType name values [] g
                    | _ \<Rightarrow> Inr g) of
        Inl e \<Rightarrow> Inl e
      | Inr g' \<Rightarrow> processEnums vs g')"

fun processServices :: "node list \<Rightarrow> gen \<Rightarrow> error + gen" where
  "processServices [] g = Inr g"
| "processServices (v # vs) g =
     (case (case v of ServiceNode name ms \<Rightarrow> processServiceType name ms g
                    | _ \<Rightarrow> Inr g) of
        Inl e \<Rightarrow> Inl e
      | Inr g' \<Rightarrow> processServices vs g')"

definition processNamespaceFlat :: "parser \<Rightarrow> node \<Rightarrow> gen \<Rightarrow> error + gen" where
  "processNamespaceFlat p ns g =
     (let allContent = collectAllContent ns in
      case processMessages p (messages allContent) g of
        Inl e \<Rightarrow> Inl e
      | Inr g \<Rightarrow>
          (case processEnums (enums allContent) g of
             Inl e \<Rightarrow> Inl e
           | Inr g \<Rightarrow> processServices (services allContent) g))"

text \<open>
  \<open>generateFromRoot(root, packageName)\<close>. \<open>generateFromRoot_gen\<close> is the state of the
  generator when the lines are joined; \<open>generateFromRoot\<close> is the returned text. The
  members are reset at the start, so the state before the call does not matter.
\<close>

definition initial_gen :: gen where
  "initial_gen =
     \<lparr>lines = [''@startuml'', ''!pragma useIntermediatePackages false'',
               ''skinparam componentStyle rectangle''],
      relations = [], relationSet = {}\<rparr>"

definition generateFromRoot_body :: "parser \<Rightarrow> node \<Rightarrow> string option \<Rightarrow> gen \<Rightarrow> error + gen" where
  "generateFromRoot_body p root packageName g =
     (if (case packageName of None \<Rightarrow> False | Some pn \<Rightarrow> pn \<noteq> [] \<and> trim pn \<noteq> []) then
        (case analyzePackageStructure root (the packageName) of
           Inl e \<Rightarrow> Inl e
         | Inr (shouldUsePackage, displayName, targetNamespace) \<Rightarrow>
             if shouldUsePackage then
               (case processNamespaceFlat p targetNamespace
                       (push_line (''package '' @ [dq] @ displayName @ [dq] @ '' {'') g) of
                  Inl e \<Rightarrow> Inl e
                | Inr g \<Rightarrow> Inr (push_line ''}'' g))
             else processNamespace p targetNamespace [] g)
      else processNamespace p root [] g)"

definition generateFromRoot_gen :: "parser \<Rightarrow> node option \<Rightarrow> string option \<Rightarrow> error + gen" where
  "generateFromRoot_gen p root packageName =
     (case root of
        None \<Rightarrow> Inl (Error ''Root namespace is required for PlantUML generation'')
      | Some root \<Rightarrow>
          (case generateFromRoot_body p root packageName initial_gen of
             Inl (Error m) \<Rightarrow> Inl (Error (''Failed to process protobuf namespace: '' @ m))
           | Inr g \<Rightarrow>
               let g = g\<lparr>lines := lines g @ relations g\<rparr>;
                   g = push_line ''@enduml'' g
               in Inr g))"

definition generateFromRoot :: "parser \<Rightarrow> node option \<Rightarrow> string option \<Rightarrow> error + string" where
  "generateFromRoot p root packageName =
     (case generateFromRoot_gen p root packageName of
        Inl e \<Rightarrow> Inl e
      | Inr g \<Rightarrow> Inr (join_array [CHR 0x0A] (lines g)))"

section \<open>The encoder module used by \<open>src/index.js\<close> (\<open>plantumlEncoder.js\<close>)\<close>

text \<open>
  This module has the same \<open>encode64\<close>, \<open>append3bytes\<close> and \<open>encode6bit\<close> (on module-level
  variables), and its own \<open>compressAndEncode\<close>, which returns the data with a tag and has
  fallbacks. \<open>Number.prototype.toString(16)\<close> and \<open>padStart(2, "0")\<close>:
\<close>

definition hex_digit :: "nat \<Rightarrow> char" where
  "hex_digit d = (if d < 10 then char_of (48 + d) else char_of (87 + d))"

function toString16 :: "nat \<Rightarrow> string" where
  "toString16 n = (if n < 16 then [hex_digit n] else toString16 (n div 16) @ [hex_digit (n mod 16)])"
  by pat_completeness auto
termination
  by (relation "measure id") auto

declare toString16.simps [simp del]

definition padStart2 :: "string \<Rightarrow> string" where
  "padStart2 s = replicate (2 - length s) CHR ''0'' @ s"

definition convertToHex :: "nat list \<Rightarrow> string" where
  "convertToHex text = fold (\<lambda>charCode hex. hex @ padStart2 (toString16 charCode)) text []"

record enc_result =
  enc_data :: string
  enc_type :: string

text \<open>
  \<open>compressAndEncode(plantumlText)\<close> of this module. External parts are parameters:
  \<open>utf8\<close> is \<open>unescape(encodeURIComponent(...))\<close>, which gives the string of the UTF-8 bytes
  or throws; \<open>pako\<close> is \<open>pako.deflateRaw\<close> if it is there; \<open>deflate\<close> and \<open>zip_deflate\<close> are
  the global functions of those names if they are defined. The second component of the
  result is what was written to the console.
\<close>

definition compressAndEncode_js ::
  "('t \<Rightarrow> string + nat list) \<Rightarrow> (nat list \<Rightarrow> string + byte list) option
     \<Rightarrow> (nat list \<Rightarrow> nat \<Rightarrow> string + nat list) option
     \<Rightarrow> (nat list \<Rightarrow> nat \<Rightarrow> string + nat list) option
     \<Rightarrow> 't \<Rightarrow> (error + enc_result) \<times> string list" where
  "compressAndEncode_js utf8 pako deflate zip_deflate plantumlText =
     (case utf8 plantumlText of
        Inl e \<Rightarrow> (Inl (Error e), [])
      | Inr s \<Rightarrow>
          (let attempt = (case pako of
                  None \<Rightarrow> (None, [])
                | Some deflateRaw \<Rightarrow>
                    (case deflateRaw s of
                       Inr compressed \<Rightarrow>
                         let deflated = map unat compressed;
                             encoded = fst (encode64 deflated init_vars)
                         in (Some \<lparr>enc_data = encoded, enc_type = ''deflate''\<rparr>, [])
                     | Inl error \<Rightarrow> (None, [''Pako compression failed: '' @ error])))
           in (case fst attempt of
               Some result \<Rightarrow> (Inr result, snd attempt)
             | None \<Rightarrow>
                 (case deflate of
                    Some f \<Rightarrow>
                      (case f s 9 of
                         Inl e \<Rightarrow> (Inl (Error e), snd attempt)
                       | Inr d \<Rightarrow>
                           (Inr \<lparr>enc_data = fst (encode64 d init_vars), enc_type = ''deflate''\<rparr>, snd attempt))
                  | None \<Rightarrow>
                      (case zip_deflate of
                         Some f \<Rightarrow>
                           (case f s 9 of
                              Inl e \<Rightarrow> (Inl (Error e), snd attempt)
                            | Inr d \<Rightarrow>
                                (Inr \<lparr>enc_data = fst (encode64 d init_vars), enc_type = ''deflate''\<rparr>,
                                 snd attempt))
                       | None \<Rightarrow>
                           (Inr \<lparr>enc_data = convertToHex s, enc_type = ''hex''\<rparr>,
                            snd attempt @
                              [''No compression library available - using HEX encoding fallback'']))))))"

definition generatePlantUMLImageUrl ::
  "('t \<Rightarrow> string + nat list) \<Rightarrow> (nat list \<Rightarrow> string + byte list) option
     \<Rightarrow> (nat list \<Rightarrow> nat \<Rightarrow> string + nat list) option
     \<Rightarrow> (nat list \<Rightarrow> nat \<Rightarrow> string + nat list) option
     \<Rightarrow> 't \<Rightarrow> string \<Rightarrow> error + string" where
  "generatePlantUMLImageUrl utf8 pako deflate zip_deflate plantumlText baseUrl =
     (case fst (compressAndEncode_js utf8 pako deflate zip_deflate plantumlText) of
        Inl e \<Rightarrow> Inl e
      | Inr result \<Rightarrow>
          if enc_type result = ''hex'' then Inr (baseUrl @ ''~h'' @ enc_data result)
          else Inr (baseUrl @ enc_data result))"

section \<open>Notions used to state the properties\<close>

subsection \<open>The alphabet and the grouping of the encoder, in the words of the specification\<close>

text \<open>
  Values 0-9 are the digits, 10-35 the upper-case letters, 36-61 the lower-case letters,
  62 is \<open>-\<close> and 63 is \<open>_\<close>.
\<close>

definition alphabet64 :: string where
  "alphabet64 = ''0123456789'' @ ''ABCDEFGHIJKLMNOPQRSTUVWXYZ'' @ ''abcdefghijklmnopqrstuvwxyz'' @ ''-_''"

text \<open>
  The four characters of a group of three bytes: the first 6 bits of byte 1; the last 2
  bits of byte 1 and the first 4 bits of byte 2; the last 4 bits of byte 2 and the first
  2 bits of byte 3; the last 6 bits of byte 3.
\<close>

definition spec_group :: "byte \<Rightarrow> byte \<Rightarrow> byte \<Rightarrow> string" where
  "spec_group b1 b2 b3 =
     [alphabet64 ! (unat b1 div 4),
      alphabet64 ! ((unat b1 mod 4) * 16 + unat b2 div 16),
      alphabet64 ! ((unat b2 mod 16) * 4 + unat b3 div 64),
      alphabet64 ! (unat b3 mod 64)]"

text \<open>Three bytes at a time, the last group padded with zero bytes.\<close>

fun spec_encode64 :: "byte list \<Rightarrow> string" where
  "spec_encode64 [] = []"
| "spec_encode64 [b1] = spec_group b1 0 0"
| "spec_encode64 [b1, b2] = spec_group b1 b2 0"
| "spec_encode64 (b1 # b2 # b3 # bs) = spec_group b1 b2 b3 @ spec_encode64 bs"

subsection \<open>The inverse transform of a consumer of the token\<close>

text \<open>
  The value of a character of the alphabet, and the three bytes of four characters.
  A consumer reads the token four characters at a time.
\<close>

definition decode6bit :: "char \<Rightarrow> nat" where
  "decode6bit c =
     (let n = of_char c :: nat in
      if 48 \<le> n \<and> n \<le> 57 then n - 48
      else if 65 \<le> n \<and> n \<le> 90 then n - 55
      else if 97 \<le> n \<and> n \<le> 122 then n - 61
      else if c = CHR ''-'' then 62
      else if c = CHR ''_'' then 63
      else 0)"

definition decode4 :: "char \<Rightarrow> char \<Rightarrow> char \<Rightarrow> char \<Rightarrow> byte list" where
  "decode4 k1 k2 k3 k4 =
     (let v1 = decode6bit k1; v2 = decode6bit k2; v3 = decode6bit k3; v4 = decode6bit k4
      in [of_nat (v1 * 4 + v2 div 16), of_nat ((v2 mod 16) * 16 + v3 div 4),
          of_nat ((v3 mod 4) * 64 + v4)])"

fun decode64 :: "string \<Rightarrow> byte list" where
  "decode64 (k1 # k2 # k3 # k4 # ks) = decode4 k1 k2 k3 k4 @ decode64 ks"
| "decode64 ks = []"

subsection \<open>A concrete text encoding and a concrete compression\<close>

text \<open>
  The external parts of the encoder are parameters of the model. To apply the theorems
  at concrete inputs they are instantiated with: texts given by their UTF-8 bytes (a
  \<open>string\<close> is a list of 8-bit characters), and DEFLATE restricted to stored blocks
  (RFC 1951, 3.2.4: a header byte with the final-block bit, the length and its
  complement in two bytes each, then the bytes themselves), which is a raw DEFLATE
  stream that any inflater accepts.
\<close>

definition utf8_bytes :: "string \<Rightarrow> byte list" where
  "utf8_bytes t = map (\<lambda>c. of_nat (of_char c)) t"

definition utf8_text :: "byte list \<Rightarrow> string" where
  "utf8_text bs = map (\<lambda>b. char_of (unat b)) bs"

definition stored_block :: "bool \<Rightarrow> byte list \<Rightarrow> byte list" where
  "stored_block final d =
     [if final then 1 else 0,
      of_nat (length d mod 256), of_nat (length d div 256),
      NOT (of_nat (length d mod 256)), NOT (of_nat (length d div 256))] @ d"

function stored_deflate :: "byte list \<Rightarrow> byte list" where
  "stored_deflate x =
     (if length x \<le> 65535 then stored_block True x
      else stored_block False (take 65535 x) @ stored_deflate (drop 65535 x))"
  by pat_completeness auto
termination
  by (relation "measure length") auto

declare stored_deflate.simps [simp del]

fun stored_inflate :: "byte list \<Rightarrow> byte list option" where
  "stored_inflate (h # lo # hi # nlo # nhi # rest) =
     (let n = unat lo + 256 * unat hi in
      if nlo \<noteq> NOT lo \<or> nhi \<noteq> NOT hi \<or> length rest < n \<or> (h \<noteq> 0 \<and> h \<noteq> 1) then None
      else if h = 1 then Some (take n rest)
      else (case stored_inflate (drop n rest) of
              None \<Rightarrow> None
            | Some d \<Rightarrow> Some (take n rest @ d)))"
| "stored_inflate bs = None"

definition stored_deflateRaw :: "byte list \<Rightarrow> string + byte list" where
  "stored_deflateRaw x = Inr (stored_deflate x)"

subsection \<open>The output of the encoder as a function of the data alone\<close>

text \<open>
  What \<open>append3bytes\<close> returns does not depend on the shared variables it is given.
\<close>

definition sextets :: "nat \<Rightarrow> nat \<Rightarrow> nat \<Rightarrow> string" where
  "sextets b1 b2 b3 =
     encode6bit (drop_bit 2 b1 AND 0x3f) @
     encode6bit ((push_bit 4 (b1 AND 0x3) OR drop_bit 4 b2) AND 0x3f) @
     encode6bit ((push_bit 2 (b2 AND 0xf) OR drop_bit 6 b3) AND 0x3f) @
     encode6bit ((b3 AND 0x3f) AND 0x3f)"

fun groups64 :: "nat list \<Rightarrow> string" where
  "groups64 [] = []"
| "groups64 [b1] = sextets b1 0 0"
| "groups64 [b1, b2] = sextets b1 b2 0"
| "groups64 (b1 # b2 # b3 # bs) = sextets b1 b2 b3 @ groups64 bs"

text \<open>The bytes, padded with zero bytes to a multiple of three.\<close>

definition pad3 :: "byte list \<Rightarrow> byte list" where
  "pad3 bs = bs @ replicate ((3 - length bs mod 3) mod 3) 0"

text \<open>
  A compression step that throws, and the string of the UTF-8 bytes of a text that is
  given by its UTF-8 bytes.
\<close>

definition failing_deflateRaw :: "byte list \<Rightarrow> string + byte list" where
  "failing_deflateRaw x = Inl ''Error: invalid input''"

definition failing_pako :: "nat list \<Rightarrow> string + byte list" where
  "failing_pako s = Inl ''Error: invalid input''"

definition utf8_string :: "string \<Rightarrow> string + nat list" where
  "utf8_string t = Inr (map of_char t)"

subsection \<open>Field names\<close>

text \<open>
  The conversion in the words of the specification: the underscores are removed and
  the first letter after each underscore is upper-cased.
\<close>

fun capitalize :: "string \<Rightarrow> string" where
  "capitalize [] = []"
| "capitalize (c # cs) = upper_char c # cs"

fun spec_camelCase :: "string \<Rightarrow> string" where
  "spec_camelCase [] = []"
| "spec_camelCase (c # cs) =
     (if c = CHR ''_'' then capitalize (spec_camelCase cs) else c # spec_camelCase cs)"

text \<open>
  The behaviour on every name, written as one pass with a flag: \<open>pending\<close> says that an
  underscore has been read and not yet written. A lower-case letter after it is
  written in upper case and the underscore is dropped; anything else, or the end of
  the name, makes the underscore be written after all.
\<close>

definition lower_letters :: string where
  "lower_letters = ''abcdefghijklmnopqrstuvwxyz''"

definition upper_letters :: string where
  "upper_letters = ''ABCDEFGHIJKLMNOPQRSTUVWXYZ''"

fun camel_scan :: "bool \<Rightarrow> string \<Rightarrow> string" where
  "camel_scan pending [] = (if pending then ''_'' else [])"
| "camel_scan pending (c # cs) =
     (if pending then
        (if c \<in> set lower_letters then upper_char c # camel_scan False cs
         else if c = CHR ''_'' then CHR ''_'' # camel_scan True cs
         else CHR ''_'' # c # camel_scan False cs)
      else if c = CHR ''_'' then camel_scan True cs
      else c # camel_scan False cs)"

text \<open>A name in which every underscore is directly followed by a lower-case letter.\<close>

fun lower_snake :: "string \<Rightarrow> bool" where
  "lower_snake [] = True"
| "lower_snake [c] = (c \<noteq> CHR ''_'')"
| "lower_snake (c # d # cs) = ((if c = CHR ''_'' then is_lower_az d else True) \<and> lower_snake (d # cs))"

subsection \<open>Relationship lines\<close>



subsection \<open>Lines of entity blocks\<close>

text \<open>
  The lines that make up the blocks of messages, enumerations and services start with
  \<open>component\<close>, \<open>object\<close>, two spaces, a closing brace, \<open>note\<close>, \<open>end note\<close>, \<open>enum\<close> or
  \<open>stereotype\<close>. \<open>block_line\<close> holds of a line whose first character is one of the first
  characters of these; the opening line of a package block, which starts with
  \<open>package\<close>, is not one. \<open>lines_added\<close> relates a state of the generator to a later one
  that has the same lines followed by new lines of this kind.
\<close>

definition block_line :: "string \<Rightarrow> bool" where
  "block_line l = (case l of [] \<Rightarrow> False | c # cs \<Rightarrow> c \<in> set ''co }nes'')"

definition lines_added :: "gen \<Rightarrow> gen \<Rightarrow> bool" where
  "lines_added g g' = (\<exists>new. lines g' = lines g @ new \<and> list_all block_line new)"

subsection \<open>The annotation of a oneof group\<close>

definition oneof_annotation :: "string \<Rightarrow> pfield list \<Rightarrow> string list" where
  "oneof_annotation name members =
     [''note right of '' @ name,
      ''  Only one of '' @ join_array '' or '' (map (\<lambda>f. toCamelCase (field_name f)) members)
        @ '' is set'',
      ''end note'']"

subsection \<open>Example schemas\<close>

text \<open>A singular field with no rule, outside any oneof.\<close>

definition plain_field :: "string \<Rightarrow> string \<Rightarrow> pfield" where
  "plain_field n t =
     \<lparr>field_name = n, field_type = t, field_map = False, field_keyType = [],
      field_repeated = False, field_rule = None, field_partOf = None, field_reserved = False\<rparr>"

definition repeated_field :: "string \<Rightarrow> string \<Rightarrow> pfield" where
  "repeated_field n t = (plain_field n t)\<lparr>field_repeated := True, field_rule := Some ''repeated''\<rparr>"

definition oneof_field :: "string \<Rightarrow> string \<Rightarrow> string \<Rightarrow> pfield" where
  "oneof_field n t oneofName = (plain_field n t)\<lparr>field_partOf := Some oneofName\<rparr>"

text \<open>
  \<open>message User { repeated Address addresses = 1; }  message Address { string street = 1; }\<close>
\<close>

definition user_address_root :: node where
  "user_address_root =
     NamespaceNode
       [(''User'', TypeNode ''User'' [repeated_field ''addresses'' ''Address''] [] []),
        (''Address'', TypeNode ''Address'' [plain_field ''street'' ''string''] [] [])]"

definition user_address_parser :: parser where
  "user_address_parser = \<lparr>knownTypes = {''User'', ''Address''}, knownEnumTypes = {}\<rparr>"




text \<open>\<open>package a; message User { string name = 1; int32 age = 2; }\<close>\<close>

definition package_a_root :: node where
  "package_a_root =
     NamespaceNode
       [(''a'', NamespaceNode
          [(''User'', TypeNode ''User''
                       [plain_field ''name'' ''string'', plain_field ''age'' ''int32''] [] [])])]"

definition package_a_parser :: parser where
  "package_a_parser = \<lparr>knownTypes = {''User''}, knownEnumTypes = {}\<rparr>"

text \<open>
  A root with messages at two levels, in \<open>a\<close> and in \<open>a.b\<close> (as when two files with the
  packages \<open>a\<close> and \<open>a.b\<close> are loaded into one root).
\<close>

definition two_level_root :: node where
  "two_level_root =
     NamespaceNode
       [(''a'', NamespaceNode
          [(''Outer'', TypeNode ''Outer'' [] [] []),
           (''b'', NamespaceNode [(''Inner'', TypeNode ''Inner'' [] [] [])])])]"

definition two_level_parser :: parser where
  "two_level_parser = \<lparr>knownTypes = {''Outer'', ''Inner''}, knownEnumTypes = {}\<rparr>"

section \<open>Properties of the encoder\<close>

subsection \<open>The loop of \<open>encode64\<close> as a recursion on the data\<close>

lemma fst_append3bytes: "fst (append3bytes b1 b2 b3 s) = sextets b1 b2 b3"
  by (simp add: append3bytes_def sextets_def Let_def)

lemma i_v_encode64_body: "i_v (encode64_body data s) = i_v s + 3"
  by (simp add: encode64_body_def append3bytes_def Let_def)

lemma r_v_encode64_body:
  "r_v (encode64_body data s) = r_v s @
     (if i_v s + 2 = length data then sextets (data ! i_v s) (data ! (i_v s + 1)) 0
      else if i_v s + 1 = length data then sextets (data ! i_v s) 0 0
      else sextets (data ! i_v s) (data ! (i_v s + 1)) (data ! (i_v s + 2)))"
  by (simp add: encode64_body_def Let_def fst_append3bytes)

lemma groups64_drop:
  assumes k: "k < length data"
  shows "groups64 (drop k data) =
     (if k + 2 = length data then sextets (data ! k) (data ! (k + 1)) 0
      else if k + 1 = length data then sextets (data ! k) 0 0
      else sextets (data ! k) (data ! (k + 1)) (data ! (k + 2))) @ groups64 (drop (k + 3) data)"
proof -
  consider "k + 1 = length data" | "k + 2 = length data" | "k + 3 \<le> length data"
    using k by linarith
  then show ?thesis
  proof cases
    case 1
    then have "drop k data = [data ! k]"
      using k by (simp flip: Cons_nth_drop_Suc)
    with 1 show ?thesis by simp
  next
    case 2
    then have "drop k data = [data ! k, data ! (k + 1)]"
      using k by (simp flip: Cons_nth_drop_Suc)
    with 2 show ?thesis by simp
  next
    case 3
    then have "drop k data = data ! k # data ! (k + 1) # data ! (k + 2) # drop (k + 3) data"
      using k by (simp add: numeral_3_eq_3 flip: Cons_nth_drop_Suc)
    with 3 show ?thesis by simp
  qed
qed

lemma encode64_loop_groups:
  "r_v (encode64_loop data s) = r_v s @ groups64 (drop (i_v s) data)"
proof (induction data s rule: encode64_loop.induct)
  case (1 data s)
  show ?case
  proof (cases "i_v s < length data")
    case True
    have "r_v (encode64_loop data s) = r_v (encode64_loop data (encode64_body data s))"
      using True by (subst encode64_loop.simps) simp
    also have "\<dots> = r_v (encode64_body data s) @ groups64 (drop (i_v s + 3) data)"
      using "1.IH" [OF True] by (simp add: i_v_encode64_body)
    also have "\<dots> = r_v s @ groups64 (drop (i_v s) data)"
      by (simp add: r_v_encode64_body groups64_drop [OF True])
    finally show ?thesis .
  next
    case False
    then show ?thesis by (subst encode64_loop.simps) simp
  qed
qed

lemma fst_encode64: "fst (encode64 data s) = groups64 data"
  by (simp add: encode64_def Let_def encode64_loop_groups)

subsection \<open>The alphabet\<close>

lemma length_alphabet64: "length alphabet64 = 64"
  by (simp add: alphabet64_def)

lemma encode6bit_table: "\<forall>v \<in> set [0..<64]. encode6bit v = [alphabet64 ! v]"
  by code_simp

lemma encode6bit_alphabet: "v < 64 \<Longrightarrow> encode6bit v = [alphabet64 ! v]"
  using encode6bit_table by simp

lemma and_3_nat: "(x::nat) AND 3 = x mod 4"
proof -
  have m: "(3::nat) = mask 2" by (simp add: mask_eq_exp_minus_1)
  show ?thesis unfolding m by (simp add: take_bit_eq_mod flip: take_bit_eq_mask)
qed

lemma and_15_nat: "(x::nat) AND 15 = x mod 16"
proof -
  have m: "(15::nat) = mask 4" by (simp add: mask_eq_exp_minus_1)
  show ?thesis unfolding m by (simp add: take_bit_eq_mod flip: take_bit_eq_mask)
qed

lemma and_63_nat: "(x::nat) AND 63 = x mod 64"
proof -
  have m: "(63::nat) = mask 6" by (simp add: mask_eq_exp_minus_1)
  show ?thesis unfolding m by (simp add: take_bit_eq_mod flip: take_bit_eq_mask)
qed

lemma encode6bit_masked: "set (encode6bit (x AND 0x3f)) \<subseteq> set alphabet64"
proof -
  have "x AND 63 < 64" by (simp add: and_63_nat)
  then show ?thesis
    by (simp add: encode6bit_alphabet length_alphabet64)
qed

lemma set_sextets: "set (sextets b1 b2 b3) \<subseteq> set alphabet64"
  unfolding sextets_def using encode6bit_masked by simp

lemma set_groups64: "set (groups64 data) \<subseteq> set alphabet64"
  by (induction data rule: groups64.induct) (use set_sextets in auto)

lemma question_mark_not_in_alphabet: "CHR ''?'' \<notin> set alphabet64"
  by (simp add: alphabet64_def)

subsection \<open>The bit split on bytes\<close>

lemma push_or_nat:
  fixes a m :: nat
  assumes "a < 2 ^ n"
  shows "push_bit n m OR a = m * 2 ^ n + a"
proof -
  have a: "take_bit n a = a" using assms by (simp add: take_bit_eq_mod)
  have "\<not> bit (push_bit n m) k \<or> \<not> bit a k" for k
  proof (cases "k < n")
    case True
    then show ?thesis by (simp add: bit_push_bit_iff)
  next
    case False
    then have "\<not> bit (take_bit n a) k" by (simp add: bit_take_bit_iff)
    then show ?thesis by (simp add: a)
  qed
  then have "push_bit n m + a = push_bit n m OR a" by (rule disjunctive_add)
  then show ?thesis by (simp add: push_bit_eq_mult)
qed

lemma sextets_bytes:
  assumes "b1 < 256" "b2 < 256" "b3 < 256"
  shows "sextets b1 b2 b3 =
    [alphabet64 ! (b1 div 4), alphabet64 ! ((b1 mod 4) * 16 + b2 div 16),
     alphabet64 ! ((b2 mod 16) * 4 + b3 div 64), alphabet64 ! (b3 mod 64)]"
proof -
  have 1: "drop_bit 2 b1 AND 63 = b1 div 4"
    using assms by (simp add: and_63_nat drop_bit_eq_div)
  have "push_bit 4 (b1 AND 3) OR drop_bit 4 b2 = (b1 mod 4) * 16 + b2 div 16"
    using assms push_or_nat [of "drop_bit 4 b2" 4 "b1 AND 3"] by (simp add: and_3_nat drop_bit_eq_div)
  then have 2: "(push_bit 4 (b1 AND 3) OR drop_bit 4 b2) AND 63 = (b1 mod 4) * 16 + b2 div 16"
    using assms by (simp add: and_63_nat)
  have "push_bit 2 (b2 AND 15) OR drop_bit 6 b3 = (b2 mod 16) * 4 + b3 div 64"
    using assms push_or_nat [of "drop_bit 6 b3" 2 "b2 AND 15"] by (simp add: and_15_nat drop_bit_eq_div)
  then have 3: "(push_bit 2 (b2 AND 15) OR drop_bit 6 b3) AND 63 = (b2 mod 16) * 4 + b3 div 64"
    using assms by (simp add: and_63_nat)
  have 4: "(b3 AND 63) AND 63 = b3 mod 64"
    by (simp add: and_63_nat)
  have lt: "b1 div 4 < 64" "(b1 mod 4) * 16 + b2 div 16 < 64"
    "(b2 mod 16) * 4 + b3 div 64 < 64" "b3 mod 64 < 64"
    using assms by auto
  show ?thesis
    unfolding sextets_def 1 2 3 4 using lt by (simp add: encode6bit_alphabet)
qed

lemma unat_byte_lt: "unat (b :: byte) < 256"
  using unsigned_less [of b] by simp

lemma sextets_spec_group: "sextets (unat b1) (unat b2) (unat b3) = spec_group b1 b2 b3"
  by (simp add: sextets_bytes unat_byte_lt spec_group_def)

lemma sextets_spec_group_0: "sextets (unat b1) (unat b2) 0 = spec_group b1 b2 0"
  using sextets_spec_group [of b1 b2 0] by simp

lemma sextets_spec_group_00: "sextets (unat b1) 0 0 = spec_group b1 0 0"
  using sextets_spec_group [of b1 0 0] by simp

lemma groups64_spec: "groups64 (map unat bs) = spec_encode64 bs"
  by (induction bs rule: spec_encode64.induct)
    (simp_all add: sextets_spec_group sextets_spec_group_0 sextets_spec_group_00)

lemma length_spec_encode64: "length (spec_encode64 bs) = 4 * ((length bs + 2) div 3)"
proof (induction bs rule: spec_encode64.induct)
  case (4 b1 b2 b3 bs)
  have "(length (b1 # b2 # b3 # bs) + 2) div 3 = Suc ((length bs + 2) div 3)" by simp
  with 4 show ?case by (simp add: spec_group_def)
qed (simp_all add: spec_group_def)

text \<open>
  C8. The compressed bytes are consumed three at a time, the last group padded with zero
  bytes; each group gives exactly four characters by the stated split of its 24 bits
  into four 6-bit values, each mapped through the alphabet digits, upper-case letters,
  lower-case letters, \<open>-\<close>, \<open>_\<close>.
\<close>

theorem encode64_three_bytes_to_four_chars:
  "fst (encode64 (map unat bs) vars) = spec_encode64 bs
   \<and> length (fst (encode64 (map unat bs) vars)) = 4 * ((length bs + 2) div 3)"
  by (simp add: fst_encode64 groups64_spec length_spec_encode64)

text \<open>
  C10. Every character that \<open>encode64\<close> produces, for any character codes at all, is in
  the 64-character alphabet, because every value given to \<open>encode6bit\<close> is masked with
  \<open>0x3f\<close>; so a token returned by \<open>encode\<close> never contains \<open>?\<close>.
\<close>

theorem encode_never_emits_question_mark:
  "set (fst (encode64 chars vars)) \<subseteq> set alphabet64
   \<and> CHR ''?'' \<notin> set (fst (encode64 chars vars))
   \<and> (encode textEncoder deflateRaw pumlText = Inr token
        \<longrightarrow> set token \<subseteq> set alphabet64 \<and> CHR ''?'' \<notin> set token)"
proof -
  have a: "set (fst (encode64 d v)) \<subseteq> set alphabet64" for d v
    by (simp add: fst_encode64 set_groups64)
  then have b: "CHR ''?'' \<notin> set (fst (encode64 d v))" for d v
    using question_mark_not_in_alphabet by blast
  show ?thesis
    using a b by (auto simp: encode_def compressAndEncode_def Let_def split: sum.splits)
qed

subsection \<open>The inverse transform\<close>

lemma map_decode6bit_alphabet64: "map decode6bit alphabet64 = [0..<64]"
  by code_simp

lemma decode6bit_alphabet:
  assumes "v < 64"
  shows "decode6bit (alphabet64 ! v) = v"
proof -
  have "decode6bit (alphabet64 ! v) = map decode6bit alphabet64 ! v"
    using assms by (simp add: length_alphabet64)
  also have "\<dots> = v"
    unfolding map_decode6bit_alphabet64 using assms by simp
  finally show ?thesis .
qed

lemma decode4_spec_group:
  assumes g: "spec_group b1 b2 b3 = [k1, k2, k3, k4]"
  shows "decode4 k1 k2 k3 k4 = [b1, b2, b3]"
proof -
  have lt: "unat b1 < 256" "unat b2 < 256" "unat b3 < 256" by (rule unat_byte_lt)+
  have k: "k1 = alphabet64 ! (unat b1 div 4)"
    "k2 = alphabet64 ! ((unat b1 mod 4) * 16 + unat b2 div 16)"
    "k3 = alphabet64 ! ((unat b2 mod 16) * 4 + unat b3 div 64)"
    "k4 = alphabet64 ! (unat b3 mod 64)"
    using g by (simp_all add: spec_group_def)
  have v1: "decode6bit k1 = unat b1 div 4"
    unfolding k using lt by (intro decode6bit_alphabet) simp
  have v2: "decode6bit k2 = (unat b1 mod 4) * 16 + unat b2 div 16"
    unfolding k using lt by (intro decode6bit_alphabet) simp
  have v3: "decode6bit k3 = (unat b2 mod 16) * 4 + unat b3 div 64"
    unfolding k using lt by (intro decode6bit_alphabet) simp
  have v4: "decode6bit k4 = unat b3 mod 64"
    unfolding k by (intro decode6bit_alphabet) simp
  have 1: "unat b1 div 4 * 4 + ((unat b1 mod 4) * 16 + unat b2 div 16) div 16 = unat b1"
    using lt by simp
  have 2: "(((unat b1 mod 4) * 16 + unat b2 div 16) mod 16) * 16
             + ((unat b2 mod 16) * 4 + unat b3 div 64) div 4 = unat b2"
    using lt by simp
  have 3: "(((unat b2 mod 16) * 4 + unat b3 div 64) mod 4) * 64 + unat b3 mod 64 = unat b3"
    using lt by simp
  show ?thesis
    unfolding decode4_def Let_def v1 v2 v3 v4 1 2 3 by simp
qed

lemma decode64_spec_group: "decode64 (spec_group b1 b2 b3 @ ks) = [b1, b2, b3] @ decode64 ks"
proof -
  obtain k1 k2 k3 k4 where g: "spec_group b1 b2 b3 = [k1, k2, k3, k4]"
    by (simp add: spec_group_def)
  show ?thesis unfolding g using decode4_spec_group [OF g] by simp
qed

lemma decode64_spec_encode64: "decode64 (spec_encode64 bs) = pad3 bs"
proof (induction bs rule: spec_encode64.induct)
  case 1
  show ?case by (simp add: pad3_def)
next
  case (2 b1)
  show ?case using decode64_spec_group [of b1 0 0 "[]"] by (simp add: pad3_def numeral_2_eq_2)
next
  case (3 b1 b2)
  show ?case using decode64_spec_group [of b1 b2 0 "[]"] by (simp add: pad3_def)
next
  case (4 b1 b2 b3 bs)
  then show ?case using decode64_spec_group [of b1 b2 b3 "spec_encode64 bs"]
    by (simp add: pad3_def)
qed

subsection \<open>Stored blocks are inverted by their inflater, whatever follows them\<close>

lemma stored_inflate_block:
  assumes "length d \<le> 65535"
  shows "stored_inflate (stored_block True d @ pad) = Some d"
proof -
  let ?n = "length d"
  have lo: "unat (of_nat (?n mod 256) :: byte) = ?n mod 256"
    by (simp add: unat_of_nat)
  have hi: "unat (of_nat (?n div 256) :: byte) = ?n div 256"
    using assms by (simp add: unat_of_nat)
  show ?thesis
    by (simp add: stored_block_def Let_def lo hi)
qed

lemma stored_inflate_block_then:
  assumes "length d \<le> 65535"
  shows "stored_inflate (stored_block False d @ after) =
         (case stored_inflate after of None \<Rightarrow> None | Some e \<Rightarrow> Some (d @ e))"
proof -
  let ?n = "length d"
  have lo: "unat (of_nat (?n mod 256) :: byte) = ?n mod 256"
    by (simp add: unat_of_nat)
  have hi: "unat (of_nat (?n div 256) :: byte) = ?n div 256"
    using assms by (simp add: unat_of_nat)
  show ?thesis
    by (simp add: stored_block_def Let_def lo hi split: option.splits)
qed

lemma stored_inflate_deflate: "stored_inflate (stored_deflate x @ pad) = Some x"
proof (induction x rule: stored_deflate.induct)
  case (1 x)
  show ?case
  proof (cases "length x \<le> 65535")
    case True
    then show ?thesis
      by (subst stored_deflate.simps) (simp add: stored_inflate_block)
  next
    case False
    then have ih: "stored_inflate (stored_deflate (drop 65535 x) @ pad) = Some (drop 65535 x)"
      using 1 by simp
    have "stored_inflate (stored_deflate x @ pad)
          = stored_inflate (stored_block False (take 65535 x) @ (stored_deflate (drop 65535 x) @ pad))"
      using False by (subst stored_deflate.simps) simp
    also have "\<dots> = Some (take 65535 x @ drop 65535 x)"
      using False by (subst stored_inflate_block_then) (simp_all add: ih)
    finally show ?thesis by simp
  qed
qed

lemma utf8_text_bytes: "utf8_text (utf8_bytes t) = t"
  by (simp add: utf8_text_def utf8_bytes_def unat_of_nat map_idI)

text \<open>
  C4. Let the external compression always succeed and be undone by a decompression that
  stops at the end of the compressed stream (so that up to two zero bytes after it are
  ignored), and let the text encoding be undone by a decoding. Then for every text the
  encoder returns a token, and applying the inverse transform to the token,
  decompressing and decoding gives the text back.
\<close>

theorem encode_round_trip:
  assumes codec: "\<forall>x. \<exists>c. deflateRaw x = Inr c \<and> (\<forall>n \<le> 2. inflateRaw (c @ replicate n 0) = Some x)"
    and dec: "\<forall>t. textDecoder (textEncoder t) = t"
  shows "\<exists>token. encode textEncoder deflateRaw pumlText = Inr token
           \<and> map_option textDecoder (inflateRaw (decode64 token)) = Some pumlText"
proof -
  from codec obtain c where c: "deflateRaw (textEncoder pumlText) = Inr c"
    and inv: "\<forall>n \<le> 2. inflateRaw (c @ replicate n 0) = Some (textEncoder pumlText)"
    by blast
  let ?token = "fst (encode64 (map unat c) init_vars)"
  have e: "encode textEncoder deflateRaw pumlText = Inr ?token"
    by (simp add: encode_def compressAndEncode_def c)
  have "decode64 ?token = c @ replicate ((3 - length c mod 3) mod 3) 0"
    by (simp add: fst_encode64 groups64_spec decode64_spec_encode64 pad3_def)
  moreover have "(3 - length c mod 3) mod 3 \<le> 2" by simp
  ultimately have "inflateRaw (decode64 ?token) = Some (textEncoder pumlText)"
    using inv by simp
  then have "map_option textDecoder (inflateRaw (decode64 ?token)) = Some pumlText"
    using dec by simp
  with e show ?thesis by blast
qed

subsection \<open>The encoder at a concrete text\<close>

lemma stored_Bob: "stored_deflate (utf8_bytes ''Bob'') = [1, 3, 0, 252, 255, 66, 111, 98]"
  by (simp add: stored_deflate.simps stored_block_def utf8_bytes_def)

lemma spec_Bob: "spec_encode64 [1, 3, 0, 252, 255, 66, 111, 98] = ''0GC0_Fz2Rs80''"
proof -
  have "spec_group 1 3 0 = ''0GC0''" "spec_group 252 255 66 = ''_Fz2''"
    "spec_group 111 98 0 = ''Rs80''"
    by (simp_all add: spec_group_def alphabet64_def)
  then show ?thesis by simp
qed

lemma encode_Bob: "encode utf8_bytes stored_deflateRaw ''Bob'' = Inr ''0GC0_Fz2Rs80''"
proof -
  have "encode utf8_bytes stored_deflateRaw ''Bob''
        = Inr (fst (encode64 (map unat (stored_deflate (utf8_bytes ''Bob''))) init_vars))"
    by (simp add: encode_def compressAndEncode_def stored_deflateRaw_def)
  also have "\<dots> = Inr ''0GC0_Fz2Rs80''"
    by (simp only: stored_Bob fst_encode64 groups64_spec spec_Bob)
  finally show ?thesis .
qed

theorem encode_never_emits_question_mark_witness:
  "encode utf8_bytes stored_deflateRaw ''Bob'' = Inr ''0GC0_Fz2Rs80''
   \<and> set ''0GC0_Fz2Rs80'' \<subseteq> set alphabet64 \<and> CHR ''?'' \<notin> set ''0GC0_Fz2Rs80''"
proof (rule conjI)
  show e: "encode utf8_bytes stored_deflateRaw ''Bob'' = Inr ''0GC0_Fz2Rs80''"
    by (rule encode_Bob)
  from encode_never_emits_question_mark
    [of "[]" init_vars utf8_bytes stored_deflateRaw "''Bob''" "''0GC0_Fz2Rs80''"]
  have "encode utf8_bytes stored_deflateRaw ''Bob'' = Inr ''0GC0_Fz2Rs80''
        \<longrightarrow> set ''0GC0_Fz2Rs80'' \<subseteq> set alphabet64 \<and> CHR ''?'' \<notin> set ''0GC0_Fz2Rs80''"
    by (elim conjE)
  then show "set ''0GC0_Fz2Rs80'' \<subseteq> set alphabet64 \<and> CHR ''?'' \<notin> set ''0GC0_Fz2Rs80''"
    using e by (rule mp)
qed

theorem encode_round_trip_witness:
  "encode utf8_bytes stored_deflateRaw ''Bob'' = Inr ''0GC0_Fz2Rs80''
   \<and> map_option utf8_text (stored_inflate (decode64 ''0GC0_Fz2Rs80'')) = Some ''Bob''"
proof -
  have codec: "\<forall>x. \<exists>c. stored_deflateRaw x = Inr c
                 \<and> (\<forall>n \<le> 2. stored_inflate (c @ replicate n 0) = Some x)"
    by (simp add: stored_deflateRaw_def stored_inflate_deflate)
  have dec: "\<forall>t. utf8_text (utf8_bytes t) = t"
    by (simp add: utf8_text_bytes)
  from encode_round_trip [OF codec dec, of "''Bob''"]
  obtain token where t: "encode utf8_bytes stored_deflateRaw ''Bob'' = Inr token"
    and r: "map_option utf8_text (stored_inflate (decode64 token)) = Some ''Bob''"
    by (elim exE conjE)
  from t have "token = ''0GC0_Fz2Rs80''"
    by (simp add: encode_Bob)
  with r show ?thesis
    by (simp add: encode_Bob)
qed

section \<open>Properties of the schema graph resolver\<close>

text \<open>
  C6. \<open>getCardinality\<close> gives MULTIPLE for a map or repeated field; otherwise OPTIONAL for
  a field marked optional or belonging to a oneof; otherwise REQUIRED; and REQUIRED when
  the field is absent. The three values are different.
\<close>

theorem getCardinality_cases:
  "getCardinality None = REQUIRED
   \<and> (field_map f \<or> field_repeated f \<longrightarrow> getCardinality (Some f) = MULTIPLE)
   \<and> (\<not> field_map f \<and> \<not> field_repeated f
        \<and> (field_rule f = Some ''optional'' \<or> field_partOf f \<noteq> None)
        \<longrightarrow> getCardinality (Some f) = OPTIONAL)
   \<and> (\<not> field_map f \<and> \<not> field_repeated f
        \<and> field_rule f \<noteq> Some ''optional'' \<and> field_partOf f = None
        \<longrightarrow> getCardinality (Some f) = REQUIRED)
   \<and> MULTIPLE \<noteq> OPTIONAL \<and> MULTIPLE \<noteq> REQUIRED \<and> OPTIONAL \<noteq> REQUIRED"
  by (simp add: getCardinality_def isOptionalField_def MULTIPLE_def OPTIONAL_def REQUIRED_def)

theorem getCardinality_cases_witness:
  "getCardinality (Some (repeated_field ''addresses'' ''Address'')) = MULTIPLE
   \<and> getCardinality (Some (oneof_field ''email'' ''string'' ''contact'')) = OPTIONAL
   \<and> getCardinality (Some (plain_field ''name'' ''string'')) = REQUIRED"
proof (intro conjI)
  have "field_map (repeated_field ''addresses'' ''Address'')
        \<or> field_repeated (repeated_field ''addresses'' ''Address'')"
    by (simp add: repeated_field_def plain_field_def)
  with getCardinality_cases [of "repeated_field ''addresses'' ''Address''"]
  show "getCardinality (Some (repeated_field ''addresses'' ''Address'')) = MULTIPLE"
    by blast
next
  let ?f = "oneof_field ''email'' ''string'' ''contact''"
  have "\<not> field_map ?f \<and> \<not> field_repeated ?f
        \<and> (field_rule ?f = Some ''optional'' \<or> field_partOf ?f \<noteq> None)"
    by (simp add: oneof_field_def plain_field_def)
  with getCardinality_cases [of ?f]
  show "getCardinality (Some ?f) = OPTIONAL"
    by blast
next
  let ?f = "plain_field ''name'' ''string''"
  have "\<not> field_map ?f \<and> \<not> field_repeated ?f
        \<and> field_rule ?f \<noteq> Some ''optional'' \<and> field_partOf ?f = None"
    by (simp add: plain_field_def)
  with getCardinality_cases [of ?f]
  show "getCardinality (Some ?f) = REQUIRED"
    by blast
qed

text \<open>
  What \<open>getRelationshipType\<close> returns: COMPOSITION for an absent or empty name and for
  a name in \<open>knownEnumTypes\<close>, AGGREGATION for every other name, a known message included.
\<close>

lemma getRelationshipType_returns:
  "getRelationshipType p None = COMPOSITION
   \<and> getRelationshipType p (Some []) = COMPOSITION
   \<and> getRelationshipType p (Some t) =
       (if t = [] \<or> t \<in> knownEnumTypes p then COMPOSITION else AGGREGATION)"
  by (simp add: getRelationshipType_def)

lemma collect_user_address:
  "collectTypes user_address_root [] \<lparr>knownTypes = {}, knownEnumTypes = {}\<rparr> = Inr user_address_parser"
  by code_simp

text \<open>
  C1, at the example of the specification: for the repeated field of the known message
  type \<open>Address\<close> in \<open>User\<close>, \<open>getRelationshipType\<close> returns \<open>--o\<close> (AGGREGATION), and the
  one relationship line of the diagram is \<open>User --o "0..*" Address\<close>, where the claim has
  the containment kind \<open>--*\<close>.
\<close>

theorem repeated_Address_relationship:
  "getRelationshipType user_address_parser (Some ''Address'') = ''--o''
   \<and> COMPOSITION = ''--*''
   \<and> map_sum id relations (generateFromRoot_gen user_address_parser (Some user_address_root) None)
       = Inr [''User --o '' @ [dq] @ ''0..*'' @ [dq] @ '' Address'']"
  by code_simp

section \<open>Properties of the diagram emitter\<close>

subsection \<open>Field names\<close>

lemma lower_not_underscore: "is_lower_az d \<Longrightarrow> d \<noteq> CHR ''_''"
  by (auto simp: is_lower_az_def)

lemma upper_char_not_underscore: "is_lower_az d \<Longrightarrow> upper_char d \<noteq> CHR ''_''"
proof -
  assume l: "is_lower_az d"
  then have "(of_char d :: nat) - 32 < 256"
    unfolding is_lower_az_def by linarith
  with l have "of_char (upper_char d) = (of_char d :: nat) - 32"
    by (simp add: upper_char_def is_lower_az_def Let_def)
  with l have "of_char (upper_char d) \<noteq> (95 :: nat)"
    unfolding is_lower_az_def by linarith
  then show ?thesis by auto
qed

lemma lower_snake_tl: "lower_snake (d # cs) \<Longrightarrow> d \<noteq> CHR ''_'' \<Longrightarrow> lower_snake cs"
  by (cases cs) (auto split: if_splits)

lemma replace_lower_snake:
  "lower_snake s \<Longrightarrow>
   replace_underscore_letter s = spec_camelCase s \<and> CHR ''_'' \<notin> set (replace_underscore_letter s)"
proof (induction s rule: replace_underscore_letter.induct)
  case 1
  show ?case by simp
next
  case (2 c)
  then show ?case by simp
next
  case (3 c d cs)
  show ?case
  proof (cases "c = CHR ''_''")
    case True
    with "3.prems" have d: "is_lower_az d" by simp
    then have dn: "d \<noteq> CHR ''_''" by (rule lower_not_underscore)
    from "3.prems" have "lower_snake (d # cs)" by simp
    then have "lower_snake cs" using dn by (rule lower_snake_tl)
    with "3.IH"(1) True d
    have ih: "replace_underscore_letter cs = spec_camelCase cs
              \<and> CHR ''_'' \<notin> set (replace_underscore_letter cs)"
      by blast
    from ih have ih1: "replace_underscore_letter cs = spec_camelCase cs"
      and ih2: "CHR ''_'' \<notin> set (replace_underscore_letter cs)"
      by blast+
    have l: "replace_underscore_letter (c # d # cs) = upper_char d # replace_underscore_letter cs"
      using True d by simp
    have r: "spec_camelCase (c # d # cs) = upper_char d # spec_camelCase cs"
      using True dn by simp
    show ?thesis
      unfolding l r using ih1 ih2 upper_char_not_underscore [OF d] by simp
  next
    case False
    from "3.prems" have "lower_snake (d # cs)" by simp
    with "3.IH"(2) False
    have ih: "replace_underscore_letter (d # cs) = spec_camelCase (d # cs)
              \<and> CHR ''_'' \<notin> set (replace_underscore_letter (d # cs))"
      by blast
    from ih have ih1: "replace_underscore_letter (d # cs) = spec_camelCase (d # cs)"
      and ih2: "CHR ''_'' \<notin> set (replace_underscore_letter (d # cs))"
      by blast+
    have l: "replace_underscore_letter (c # d # cs) = c # replace_underscore_letter (d # cs)"
      using False by simp
    have r: "spec_camelCase (c # d # cs) = c # spec_camelCase (d # cs)"
      using False by simp
    show ?thesis
      unfolding l r using ih1 ih2 False by simp
  qed
qed

lemma replace_no_underscore: "CHR ''_'' \<notin> set s \<Longrightarrow> replace_underscore_letter s = s"
  by (induction s rule: replace_underscore_letter.induct) auto

lemma processMessageField_line:
  "processMessageField p f parent g = Inr g' \<Longrightarrow>
   \<exists>displayType. lines g' = lines g @ [''  '' @ toCamelCase (field_name f) @ '' : '' @ displayType]"
  by (auto simp: processMessageField_def extractFieldType_def createRelationship_def
      add_relation_def push_line_def Let_def split: sum.splits if_splits)

lemma upper_letters_map: "map upper_char lower_letters = upper_letters"
  by code_simp

lemma map_of_char_lower_letters: "map of_char lower_letters = [97..<123 :: nat]"
  by code_simp

lemma is_lower_az_letters: "is_lower_az c \<longleftrightarrow> c \<in> set lower_letters"
proof -
  have "c \<in> set lower_letters \<longleftrightarrow> (of_char c :: nat) \<in> of_char ` set lower_letters"
    by (auto simp: inj_image_mem_iff [OF inj_of_char])
  also have "of_char ` set lower_letters = set (map of_char lower_letters :: nat list)"
    by simp
  also have "\<dots> = {97..<123}"
    by (simp only: map_of_char_lower_letters set_upt)
  finally show ?thesis by (auto simp: is_lower_az_def)
qed

lemma replace_other: "c \<noteq> CHR ''_'' \<Longrightarrow>
   replace_underscore_letter (c # cs) = c # replace_underscore_letter cs"
  by (cases cs) simp_all

lemma camel_scan_replace:
  "camel_scan False s = replace_underscore_letter s
   \<and> camel_scan True s = replace_underscore_letter (CHR ''_'' # s)"
proof (induction s)
  case Nil
  show ?case by simp
next
  case (Cons c cs)
  then have f: "camel_scan False cs = replace_underscore_letter cs"
    and t: "camel_scan True cs = replace_underscore_letter (CHR ''_'' # cs)"
    by blast+
  have 1: "camel_scan False (c # cs) = replace_underscore_letter (c # cs)"
    using f t by (simp add: replace_other)
  have 2: "camel_scan True (c # cs) = replace_underscore_letter (CHR ''_'' # c # cs)"
  proof (cases "is_lower_az c")
    case True
    then show ?thesis using f by (simp add: is_lower_az_letters)
  next
    case False
    then show ?thesis using f t by (simp add: is_lower_az_letters replace_other)
  qed
  from 1 2 show ?case by blast
qed

lemma toCamelCase_replace: "toCamelCase s = replace_underscore_letter s"
  by (simp add: toCamelCase_def)

text \<open>
  C3, as amended. The line of a field starts with \<open>toCamelCase\<close> of its name.
  \<open>toCamelCase\<close> is determined on every name: it is the one-pass conversion
  \<open>camel_scan\<close>; a character other than an underscore is copied; an underscore directly
  followed by a lower-case letter is dropped and the letter is written in upper case;
  an underscore followed by any other character, or at the end of the name, stays.
  So on a name in which every underscore is directly followed by a lower-case letter
  it is the conversion of the specification and leaves no underscore, and on a name
  without underscores it changes nothing.
\<close>

theorem toCamelCase_conversion:
  "(processMessageField p f parent g = Inr g'
      \<longrightarrow> (\<exists>displayType. lines g' = lines g @ [''  '' @ toCamelCase (field_name f) @ '' : '' @ displayType]))
   \<and> (lower_snake name
      \<longrightarrow> toCamelCase name = spec_camelCase name \<and> CHR ''_'' \<notin> set (toCamelCase name))
   \<and> (CHR ''_'' \<notin> set name \<longrightarrow> toCamelCase name = name)
   \<and> toCamelCase name = camel_scan False name
   \<and> toCamelCase [] = []
   \<and> toCamelCase ''_'' = ''_''
   \<and> (c \<noteq> CHR ''_'' \<longrightarrow> toCamelCase (c # cs) = c # toCamelCase cs)
   \<and> (d \<in> set lower_letters
      \<longrightarrow> toCamelCase (CHR ''_'' # d # cs) = upper_char d # toCamelCase cs)
   \<and> (d \<notin> set lower_letters
      \<longrightarrow> toCamelCase (CHR ''_'' # d # cs) = CHR ''_'' # toCamelCase (d # cs))
   \<and> map upper_char lower_letters = upper_letters"
proof (intro conjI impI)
  assume "processMessageField p f parent g = Inr g'"
  then show "\<exists>displayType. lines g' = lines g @ [''  '' @ toCamelCase (field_name f) @ '' : '' @ displayType]"
    by (rule processMessageField_line)
next
  assume s: "lower_snake name"
  show "toCamelCase name = spec_camelCase name"
    unfolding toCamelCase_replace by (rule replace_lower_snake [OF s, THEN conjunct1])
  show "CHR ''_'' \<notin> set (toCamelCase name)"
    unfolding toCamelCase_replace by (rule replace_lower_snake [OF s, THEN conjunct2])
next
  assume "CHR ''_'' \<notin> set name"
  then show "toCamelCase name = name"
    by (simp add: toCamelCase_replace replace_no_underscore)
next
  show "toCamelCase name = camel_scan False name"
    by (simp add: toCamelCase_replace camel_scan_replace)
next
  show "toCamelCase [] = []" by (simp add: toCamelCase_replace)
next
  show "toCamelCase ''_'' = ''_''" by (simp add: toCamelCase_replace)
next
  assume "c \<noteq> CHR ''_''"
  then show "toCamelCase (c # cs) = c # toCamelCase cs"
    unfolding toCamelCase_replace by (rule replace_other)
next
  assume "d \<in> set lower_letters"
  then have "is_lower_az d" by (rule is_lower_az_letters [THEN iffD2])
  then show "toCamelCase (CHR ''_'' # d # cs) = upper_char d # toCamelCase cs"
    by (simp add: toCamelCase_replace)
next
  assume "d \<notin> set lower_letters"
  then have "\<not> is_lower_az d" by (simp add: is_lower_az_letters)
  then show "toCamelCase (CHR ''_'' # d # cs) = CHR ''_'' # toCamelCase (d # cs)"
    by (simp add: toCamelCase_replace)
next
  show "map upper_char lower_letters = upper_letters" by (rule upper_letters_map)
qed

theorem toCamelCase_conversion_witness:
  "toCamelCase ''last_name_suffix'' = ''lastNameSuffix''
   \<and> CHR ''_'' \<notin> set (toCamelCase ''last_name_suffix'')
   \<and> toCamelCase ''lastNameSuffix'' = ''lastNameSuffix''
   \<and> toCamelCase ''x_1'' = CHR ''x'' # toCamelCase ''_1''
   \<and> toCamelCase ''_1'' = CHR ''_'' # toCamelCase ''1''
   \<and> toCamelCase ''_b'' = upper_char CHR ''b'' # toCamelCase []"
proof -
  have s: "lower_snake ''last_name_suffix''" by code_simp
  have c: "spec_camelCase ''last_name_suffix'' = ''lastNameSuffix''" by code_simp
  have n: "CHR ''_'' \<notin> set ''lastNameSuffix''" by simp
  have x: "CHR ''x'' \<noteq> CHR ''_''" by simp
  have one: "CHR ''1'' \<notin> set lower_letters" by (simp add: lower_letters_def)
  have b: "CHR ''b'' \<in> set lower_letters" by (simp add: lower_letters_def)
  from toCamelCase_conversion [where name = "''last_name_suffix''"] s
  have 1: "toCamelCase ''last_name_suffix'' = spec_camelCase ''last_name_suffix''
           \<and> CHR ''_'' \<notin> set (toCamelCase ''last_name_suffix'')"
    by blast
  from toCamelCase_conversion [where name = "''lastNameSuffix''"] n
  have 2: "toCamelCase ''lastNameSuffix'' = ''lastNameSuffix''"
    by blast
  from toCamelCase_conversion [where c = "CHR ''x''" and cs = "''_1''"] x
  have 3: "toCamelCase ''x_1'' = CHR ''x'' # toCamelCase ''_1''"
    by blast
  from toCamelCase_conversion [where d = "CHR ''1''" and cs = "[]"] one
  have 4: "toCamelCase ''_1'' = CHR ''_'' # toCamelCase ''1''"
    by blast
  from toCamelCase_conversion [where d = "CHR ''b''" and cs = "[]"] b
  have 5: "toCamelCase ''_b'' = upper_char CHR ''b'' # toCamelCase []"
    by blast
  from 1 2 3 4 5 c show ?thesis by simp
qed

text \<open>
  The claim as stated fails on a name whose underscore is followed by a digit: the
  underscore stays.
\<close>

theorem toCamelCase_keeps_underscore_counterexample:
  "toCamelCase ''field_1'' = ''field_1'' \<and> spec_camelCase ''field_1'' = ''field1''"
  by code_simp

subsection \<open>Oneof annotations\<close>

lemma oneofNote_lines:
  "lines (oneofNote name entry g) =
     lines g @ (if length (snd entry) = 1 then []
                else if 2 \<le> length (snd entry) then oneof_annotation name (snd entry)
                else [])"
  by (auto simp: oneofNote_def oneof_annotation_def push_line_def Let_def)

lemma oneofNote_relations:
  "relations (oneofNote name entry g) = relations g
   \<and> relationSet (oneofNote name entry g) = relationSet g"
  by (simp add: oneofNote_def push_line_def Let_def)

lemma fold_oneofNote:
  "lines (fold (oneofNote name) oneofs g) =
     lines g @ concat (map (\<lambda>entry. if length (snd entry) = 1 then []
                                      else if 2 \<le> length (snd entry) then oneof_annotation name (snd entry)
                                      else []) oneofs)
   \<and> relations (fold (oneofNote name) oneofs g) = relations g
   \<and> relationSet (fold (oneofNote name) oneofs g) = relationSet g"
proof (induction oneofs arbitrary: g)
  case Nil
  show ?case by simp
next
  case (Cons entry oneofs)
  show ?case
    using Cons.IH [of "oneofNote name entry g"]
    by (simp add: oneofNote_lines oneofNote_relations)
qed

text \<open>
  C9. \<open>processOneofNotes\<close> appends to the lines, for each oneof of the message in
  order: nothing if the oneof has exactly one member field, and exactly one
  annotation, naming all its member fields joined by \<open>or\<close>, if it has two or more. It
  leaves the relationship lines as they are.
\<close>

theorem processOneofNotes_annotations:
  "lines (processOneofNotes name oneofs g) =
     lines g @ concat (map (\<lambda>entry. if length (snd entry) = 1 then []
                                      else if 2 \<le> length (snd entry) then oneof_annotation name (snd entry)
                                      else []) oneofs)
   \<and> relations (processOneofNotes name oneofs g) = relations g
   \<and> relationSet (processOneofNotes name oneofs g) = relationSet g"
  using fold_oneofNote [of name oneofs g] by (simp add: processOneofNotes_def)

section \<open>Compression failure in the two encoders\<close>

lemma compressAndEncode_throws:
  "deflateRaw (textEncoder pumlText) = Inl thrown \<Longrightarrow>
   encode textEncoder deflateRaw pumlText
     = Inl (Error (''Pako compression failed: '' @ [dq] @ '' '' @ thrown))"
  by (simp add: encode_def compressAndEncode_def)

lemma compressAndEncode_js_throws:
  assumes "utf8_of plantumlText = Inr s" and "pako s = Inl thrown"
  shows "compressAndEncode_js utf8_of (Some pako) deflate zip_deflate plantumlText
          = (fst (compressAndEncode_js utf8_of None deflate zip_deflate plantumlText),
             (''Pako compression failed: '' @ thrown)
               # snd (compressAndEncode_js utf8_of None deflate zip_deflate plantumlText))"
  using assms
  by (simp add: compressAndEncode_js_def Let_def split: option.splits sum.splits)

lemma compressAndEncode_js_hex:
  assumes "utf8_of plantumlText = Inr s"
  shows "compressAndEncode_js utf8_of None None None plantumlText
          = (Inr \<lparr>enc_data = convertToHex s, enc_type = ''hex''\<rparr>,
             [''No compression library available - using HEX encoding fallback''])"
  using assms by (simp add: compressAndEncode_js_def)

text \<open>
  C2, as amended. In the encoder that returns only the token (\<open>plantumlEncoder.ts\<close>), a
  compression step that throws makes \<open>encode\<close> fail with an error that wraps what was
  thrown. In the encoder that returns the data with a tag (the one \<open>index.js\<close> uses), a
  \<open>pako.deflateRaw\<close> that throws is reported on the console and the call goes on as if
  pako were not there; with no other deflate function defined it returns the
  hexadecimal encoding tagged \<open>hex\<close>. That call does not fail.
\<close>

theorem compression_failure_in_both_encoders:
  "(deflateRaw (textEncoder pumlText) = Inl thrown
      \<longrightarrow> encode textEncoder deflateRaw pumlText
            = Inl (Error (''Pako compression failed: '' @ [dq] @ '' '' @ thrown)))
   \<and> (utf8_of plantumlText = Inr s \<and> pako s = Inl thrown
      \<longrightarrow> compressAndEncode_js utf8_of (Some pako) deflate zip_deflate plantumlText
            = (fst (compressAndEncode_js utf8_of None deflate zip_deflate plantumlText),
               (''Pako compression failed: '' @ thrown)
                 # snd (compressAndEncode_js utf8_of None deflate zip_deflate plantumlText))
          \<and> compressAndEncode_js utf8_of (Some pako) None None plantumlText
            = (Inr \<lparr>enc_data = convertToHex s, enc_type = ''hex''\<rparr>,
               [''Pako compression failed: '' @ thrown,
                ''No compression library available - using HEX encoding fallback'']))"
proof (intro conjI impI)
  assume "deflateRaw (textEncoder pumlText) = Inl thrown"
  then show "encode textEncoder deflateRaw pumlText
      = Inl (Error (''Pako compression failed: '' @ [dq] @ '' '' @ thrown))"
    by (rule compressAndEncode_throws)
next
  assume a: "utf8_of plantumlText = Inr s \<and> pako s = Inl thrown"
  then show "compressAndEncode_js utf8_of (Some pako) deflate zip_deflate plantumlText
      = (fst (compressAndEncode_js utf8_of None deflate zip_deflate plantumlText),
         (''Pako compression failed: '' @ thrown)
           # snd (compressAndEncode_js utf8_of None deflate zip_deflate plantumlText))"
    by (simp add: compressAndEncode_js_throws)
  from a show "compressAndEncode_js utf8_of (Some pako) None None plantumlText
      = (Inr \<lparr>enc_data = convertToHex s, enc_type = ''hex''\<rparr>,
         [''Pako compression failed: '' @ thrown,
          ''No compression library available - using HEX encoding fallback''])"
    by (simp add: compressAndEncode_js_throws compressAndEncode_js_hex)
qed

lemma convertToHex_example: "convertToHex (map of_char ''AB~'') = ''41427e''"
  by code_simp

theorem compression_failure_in_both_encoders_witness:
  "encode utf8_bytes failing_deflateRaw ''AB~''
     = Inl (Error (''Pako compression failed: '' @ [dq] @ '' Error: invalid input''))
   \<and> compressAndEncode_js utf8_string (Some failing_pako) None None ''AB~''
     = (Inr \<lparr>enc_data = ''41427e'', enc_type = ''hex''\<rparr>,
        [''Pako compression failed: Error: invalid input'',
         ''No compression library available - using HEX encoding fallback''])"
proof (rule conjI)
  have t: "failing_deflateRaw (utf8_bytes ''AB~'') = Inl ''Error: invalid input''"
    by (simp add: failing_deflateRaw_def)
  have "encode utf8_bytes failing_deflateRaw ''AB~''
      = Inl (Error (''Pako compression failed: '' @ [dq] @ '' '' @ ''Error: invalid input''))"
    by (rule compression_failure_in_both_encoders
        [where deflateRaw = failing_deflateRaw and textEncoder = utf8_bytes,
          THEN conjunct1, THEN mp, OF t])
  then show "encode utf8_bytes failing_deflateRaw ''AB~''
      = Inl (Error (''Pako compression failed: '' @ [dq] @ '' Error: invalid input''))"
    by simp
next
  have j: "utf8_string ''AB~'' = Inr (map of_char ''AB~'')
           \<and> failing_pako (map of_char ''AB~'') = Inl ''Error: invalid input''"
    by (simp add: utf8_string_def failing_pako_def)
  have "compressAndEncode_js utf8_string (Some failing_pako) None None ''AB~''
      = (Inr \<lparr>enc_data = convertToHex (map of_char ''AB~''), enc_type = ''hex''\<rparr>,
         [''Pako compression failed: '' @ ''Error: invalid input'',
          ''No compression library available - using HEX encoding fallback''])"
    by (rule compression_failure_in_both_encoders
        [where utf8_of = utf8_string and pako = failing_pako,
          THEN conjunct2, THEN mp, OF j, THEN conjunct2])
  then show "compressAndEncode_js utf8_string (Some failing_pako) None None ''AB~''
     = (Inr \<lparr>enc_data = ''41427e'', enc_type = ''hex''\<rparr>,
        [''Pako compression failed: Error: invalid input'',
         ''No compression library available - using HEX encoding fallback''])"
    by (simp only: convertToHex_example append.simps)
qed

text \<open>
  The claim as stated fails for the encoder that \<open>index.js\<close> uses: the compression
  step throws, and the call returns hexadecimal data instead of failing.
\<close>

theorem compression_failure_not_fatal_counterexample:
  "failing_pako (map of_char ''AB~'') = Inl ''Error: invalid input''
   \<and> fst (compressAndEncode_js utf8_string (Some failing_pako) None None ''AB~'')
     = Inr \<lparr>enc_data = ''41427e'', enc_type = ''hex''\<rparr>
   \<and> generatePlantUMLImageUrl utf8_string (Some failing_pako) None None ''AB~'' ''http://host/img/''
     = Inr ''http://host/img/~h41427e''"
  by code_simp

section \<open>Package layout\<close>

lemma findContentNamespace_same:
  "findContentNamespace ns = ns" "findContentNamespace_loop es = None"
  by (induction ns and es rule: findContentNamespace_findContentNamespace_loop.induct) simp_all

lemma split_on_not_Nil: "split_on c s \<noteq> []"
  by (induction s) (auto split: list.splits)

lemma shouldUsePackageBlock_short:
  assumes "length parts \<le> 2" "parts \<noteq> []"
    and "toLowerCase (last parts) \<notin> set meaningfulNames" "contentLevels \<le> 1"
  shows "shouldUsePackageBlock parts contentLevels target = Inr False"
  using assms by (simp add: shouldUsePackageBlock_def Let_def)

subsection \<open>The lines of entity blocks\<close>

lemma lines_added_refl: "lines_added g g"
  by (simp add: lines_added_def)

lemma lines_added_trans: "lines_added g g' \<Longrightarrow> lines_added g' g'' \<Longrightarrow> lines_added g g''"
  by (auto simp: lines_added_def)

lemma lines_added_same: "lines g' = lines g \<Longrightarrow> lines_added g g'"
  by (simp add: lines_added_def)

lemma lines_added_more: "lines g' = lines g @ new \<Longrightarrow> list_all block_line new \<Longrightarrow> lines_added g g'"
  by (auto simp: lines_added_def)

lemma push_line_added: "block_line l \<Longrightarrow> lines_added g (push_line l g)"
  by (rule lines_added_more [where new = "[l]"]) (simp_all add: push_line_def)

lemma add_relation_added: "lines_added g (add_relation rel g)"
  by (rule lines_added_same) (simp add: add_relation_def)

lemma createRelationship_added:
  "createRelationship p field fieldType parent g = Inr g' \<Longrightarrow> lines_added g g'"
  by (auto simp: createRelationship_def Let_def add_relation_added lines_added_refl
      split: sum.splits if_splits)

lemma block_line_simps:
  "block_line (''  '' @ x)" "block_line ''}''" "block_line (''object '' @ x)"
  "block_line (''component '' @ x)" "block_line (''enum '' @ x)" "block_line (''stereotype '' @ x)"
  "block_line (''note right of '' @ x)" "block_line ''end note''"
  by (simp_all add: block_line_def)

lemma block_line_not_package: "block_line l \<Longrightarrow> \<not> startsWith l ''package''"
  by (cases l) (auto simp: block_line_def startsWith_def)

lemma processMessageField_added:
  assumes "processMessageField p field parent g = Inr g'"
  shows "lines_added g g'"
proof -
  from assms obtain x where d:
    "g' = push_line (''  '' @ x) g
     \<or> createRelationship p field (field_type field) parent (push_line (''  '' @ x) g) = Inr g'"
    by (auto simp: processMessageField_def extractFieldType_def Let_def split: sum.splits if_splits)
  have k: "lines_added g (push_line (''  '' @ x) g)"
    by (rule push_line_added) (rule block_line_simps)
  from d show ?thesis
  proof
    assume "g' = push_line (''  '' @ x) g"
    with k show ?thesis by simp
  next
    assume "createRelationship p field (field_type field) parent (push_line (''  '' @ x) g) = Inr g'"
    then have "lines_added (push_line (''  '' @ x) g) g'" by (rule createRelationship_added)
    with k show ?thesis by (rule lines_added_trans)
  qed
qed

lemma processFields_added:
  "processFields p fs name g = Inr g' \<Longrightarrow> lines_added g g'"
proof (induction fs arbitrary: g)
  case Nil
  then show ?case by (simp add: lines_added_refl)
next
  case (Cons f fs)
  from Cons.prems obtain ga where 1: "processMessageField p f name g = Inr ga"
    and 2: "processFields p fs name ga = Inr g'"
    by (auto split: sum.splits error.splits)
  from 1 have "lines_added g ga" by (rule processMessageField_added)
  moreover from 2 have "lines_added ga g'" by (rule Cons.IH)
  ultimately show ?case by (rule lines_added_trans)
qed

lemma processOneofNotes_added: "lines_added g (processOneofNotes name oneofs g)"
proof -
  let ?new = "concat (map (\<lambda>entry. if length (snd entry) = 1 then []
                                      else if 2 \<le> length (snd entry) then oneof_annotation name (snd entry)
                                      else []) oneofs)"
  have "lines (processOneofNotes name oneofs g) = lines g @ ?new"
    using fold_oneofNote [of name oneofs g] by (simp add: processOneofNotes_def)
  moreover have "list_all block_line ?new"
    by (induction oneofs) (simp_all add: oneof_annotation_def block_line_def)
  ultimately show ?thesis by (rule lines_added_more)
qed

lemma fold_push_lines:
  "lines (fold (\<lambda>v g. if c v then push_line (l v) g else g) vs g) = lines g @ map l (filter c vs)"
  by (induction vs arbitrary: g) (simp_all add: push_line_def)

lemma processEnumType_added:
  assumes "processEnumType name values parentName g = Inr g'"
  shows "lines_added g g'"
proof -
  from assms obtain vs where
    g': "g' = push_line ''}''
               (fold (\<lambda>enumValue g. if enumValue \<noteq> [] then push_line (''  '' @ enumValue) g else g) vs
                  (push_line (''enum '' @ name @ '' {'') g))"
    by (auto simp: processEnumType_def Let_def split: if_splits option.splits)
  have "lines g' = lines g @ ((''enum '' @ name @ '' {'')
                     # map (\<lambda>v. ''  '' @ v) (filter (\<lambda>v. v \<noteq> []) vs) @ [''}''])"
    unfolding g' by (simp add: push_line_def fold_push_lines)
  moreover have "list_all block_line ((''enum '' @ name @ '' {'')
                     # map (\<lambda>v. ''  '' @ v) (filter (\<lambda>v. v \<noteq> []) vs) @ [''}''])"
    by (simp add: list_all_iff block_line_def)
  ultimately show ?thesis by (rule lines_added_more)
qed

lemma processMethods_added:
  "processMethods name ms g = Inr g' \<Longrightarrow> lines_added g g'"
proof (induction ms arbitrary: g)
  case Nil
  then show ?case by (simp add: lines_added_refl)
next
  case (Cons m ms)
  let ?req = "if requestType m \<noteq> [] then requestType m else ''Unknown''"
  let ?resp = "if responseType m \<noteq> [] then responseType m else ''Unknown''"
  let ?ga = "push_line (''  '' @ method_name m @ ''('' @ ?req @ '') : '' @ ?resp) g"
  let ?gb = "add_relation (name @ '' '' @ ASSOCIATION @ '' '' @ ?req) ?ga"
  let ?gc = "add_relation (name @ '' '' @ ASSOCIATION @ '' '' @ ?resp) ?gb"
  from Cons.prems have nm: "method_name m \<noteq> []"
    by (auto split: if_splits)
  with Cons.prems have r: "processMethods name ms ?gc = Inr g'"
    by (simp add: Let_def)
  have ka: "lines_added g ?ga" by (rule push_line_added) (rule block_line_simps)
  have kb: "lines_added ?ga ?gb" by (rule add_relation_added)
  have kc: "lines_added ?gb ?gc" by (rule add_relation_added)
  have kd: "lines_added ?gc g'" using r by (rule Cons.IH)
  have "lines_added g ?gb" using ka kb by (rule lines_added_trans)
  then have "lines_added g ?gc" using kc by (rule lines_added_trans)
  then show ?case using kd by (rule lines_added_trans)
qed

lemma processServiceType_added:
  assumes "processServiceType name methods g = Inr g'"
  shows "lines_added g g'"
proof -
  let ?g0 = "push_line (''stereotype '' @ name @ '' {'') g"
  from assms obtain ms ga where
    m: "processMethods name ms ?g0 = Inr ga"
    and g': "g' = push_line ''}'' ga"
    by (auto simp: processServiceType_def split: if_splits option.splits sum.splits)
  have k0: "lines_added g ?g0" by (rule push_line_added) (rule block_line_simps)
  have ka: "lines_added ?g0 ga" using m by (rule processMethods_added)
  have kb: "lines_added ga g'" unfolding g' by (rule push_line_added) (rule block_line_simps)
  have "lines_added g ga" using k0 ka by (rule lines_added_trans)
  then show ?thesis using kb by (rule lines_added_trans)
qed

lemma processNamespace_added:
  "processNamespace p ns parentName g = Inr g' \<Longrightarrow> lines_added g g'"
  "processNamespace_loop p es parentName g = Inr g' \<Longrightarrow> lines_added g g'"
  "processMessageType p name fs os nested g = Inr g' \<Longrightarrow> lines_added g g'"
proof (induction p ns parentName g and p es parentName g and p name fs os nested g
    arbitrary: g' and g' and g'
    rule: processNamespace_processNamespace_loop_processMessageType.induct)
  case (1 p ns parentName g)
  then show ?case by simp
next
  case (2 p parentName g)
  then show ?case by (simp add: lines_added_refl)
next
  case (3 p key v rest parentName g)
  from "3.prems" obtain ga where
    step: "(case v of
              TypeNode name fs os nested \<Rightarrow> processMessageType p name fs os nested g
            | EnumNode name vs \<Rightarrow> processEnumType name vs parentName g
            | ServiceNode name ms \<Rightarrow> processServiceType name ms g
            | NamespaceNode nested \<Rightarrow> processNamespace p v parentName g) = Inr ga"
    and rest: "processNamespace_loop p rest parentName ga = Inr g'"
    by (auto split: sum.splits error.splits)
  have ka: "lines_added g ga"
  proof (cases v)
    case (TypeNode name fs os nested)
    with step have "processMessageType p name fs os nested g = Inr ga" by simp
    with TypeNode show ?thesis by (intro "3.IH"(1))
  next
    case (EnumNode name vs)
    with step have "processEnumType name vs parentName g = Inr ga" by simp
    then show ?thesis by (rule processEnumType_added)
  next
    case (ServiceNode name ms)
    with step have "processServiceType name ms g = Inr ga" by simp
    then show ?thesis by (rule processServiceType_added)
  next
    case (NamespaceNode nested)
    with step have "processNamespace p v parentName g = Inr ga" by simp
    with NamespaceNode show ?thesis by (intro "3.IH"(2))
  qed
  have "lines_added ga g'" using rest step by (intro "3.IH"(3))
  with ka show ?case by (rule lines_added_trans)
next
  case (4 p name fieldsArray oneofs nested g)
  let ?has = "list_ex (\<lambda>e. isEnum (snd e)) nested"
  let ?ga = "if ?has then push_line (''component '' @ [dq] @ name @ '' Types'' @ [dq] @ '' {'') g else g"
  let ?gb = "push_line (''object '' @ name @ '' {'') ?ga"
  from "4.prems" have nm: "name \<noteq> []" by (auto split: if_splits)
  with "4.prems" obtain gc gd where
    f: "processFields p (filter (\<lambda>field. \<not> field_reserved field) fieldsArray) name ?gb = Inr gc"
    and n: "processNamespace_loop p nested [] (processOneofNotes name oneofs (push_line ''}'' gc)) = Inr gd"
    and g': "g' = (if ?has then push_line ''}'' gd else gd)"
    by (auto simp: Let_def split: sum.splits)
  let ?ge = "push_line ''}'' gc"
  let ?gf = "processOneofNotes name oneofs ?ge"
  have ka: "lines_added g ?ga"
    by (simp add: push_line_added block_line_def lines_added_refl)
  have kb: "lines_added ?ga ?gb" by (rule push_line_added) (rule block_line_simps)
  have kc: "lines_added ?gb gc" using f by (rule processFields_added)
  have ke: "lines_added gc ?ge" by (rule push_line_added) (rule block_line_simps)
  have kf: "lines_added ?ge ?gf" by (rule processOneofNotes_added)
  have kd: "lines_added ?gf gd"
    using n nm f by (intro "4.IH") simp_all
  have kg: "lines_added gd g'"
    unfolding g' by (simp add: push_line_added block_line_simps lines_added_refl)
  have "lines_added g ?gb" using ka kb by (rule lines_added_trans)
  then have "lines_added g gc" using kc by (rule lines_added_trans)
  then have "lines_added g ?ge" using ke by (rule lines_added_trans)
  then have "lines_added g ?gf" using kf by (rule lines_added_trans)
  then have "lines_added g gd" using kd by (rule lines_added_trans)
  then show ?case using kg by (rule lines_added_trans)
qed

subsection \<open>Short package paths\<close>

text \<open>
  C7, as amended. If the package path has at most 2 segments, its last segment is not
  one of the meaningful names when put in lower case, and at most one namespace level
  of the root has direct content, then the analysis decides against the package block,
  and \<open>generateFromRoot\<close> adds nothing of its own around the entities: its lines are
  the header lines, then what \<open>processNamespace\<close> emits for the root, then the
  relationship lines and the end marker. The diagram is the one generated for the
  same root with no package name at all. Between the header lines and the
  relationship lines there are only lines of entity blocks, none of which starts with
  \<open>package\<close>.
\<close>

theorem short_package_not_wrapped:
  assumes "length (split_on CHR ''.'' packageName) \<le> 2"
    and "toLowerCase (last (split_on CHR ''.'' packageName)) \<notin> set meaningfulNames"
    and "countContentAtLevels root \<le> 1"
  shows "analyzePackageStructure root packageName = Inr (False, [], root)
         \<and> generateFromRoot p (Some root) (Some packageName) = generateFromRoot p (Some root) None
         \<and> generateFromRoot_gen p (Some root) (Some packageName) =
             (case processNamespace p root [] initial_gen of
                Inl (Error m) \<Rightarrow> Inl (Error (''Failed to process protobuf namespace: '' @ m))
              | Inr g \<Rightarrow> Inr (push_line ''@enduml'' (g\<lparr>lines := lines g @ relations g\<rparr>)))
         \<and> (\<forall>g. generateFromRoot_gen p (Some root) (Some packageName) = Inr g \<longrightarrow>
               (\<exists>body. lines g = lines initial_gen @ body @ relations g @ [''@enduml'']
                       \<and> list_all block_line body
                       \<and> (\<forall>l \<in> set body. \<not> startsWith l ''package'')))"
proof -
  have s: "shouldUsePackageBlock (split_on CHR ''.'' packageName) (countContentAtLevels root)
             (findContentNamespace root) = Inr False"
    using assms split_on_not_Nil by (intro shouldUsePackageBlock_short)
  then have a: "analyzePackageStructure root packageName = Inr (False, [], root)"
    by (simp add: analyzePackageStructure_def Let_def getOptimalPackageName_def
        findContentNamespace_same)
  then have b: "generateFromRoot_body p root (Some packageName) g = processNamespace p root [] g" for g
    by (simp add: generateFromRoot_body_def del: processNamespace.simps)
  have n: "generateFromRoot_body p root None g = processNamespace p root [] g" for g
    by (simp add: generateFromRoot_body_def del: processNamespace.simps)
  have c: "generateFromRoot p (Some root) (Some packageName) = generateFromRoot p (Some root) None"
    by (simp add: generateFromRoot_def generateFromRoot_gen_def b n del: processNamespace.simps)
  have d: "generateFromRoot_gen p (Some root) (Some packageName) =
             (case processNamespace p root [] initial_gen of
                Inl (Error m) \<Rightarrow> Inl (Error (''Failed to process protobuf namespace: '' @ m))
              | Inr g \<Rightarrow> Inr (push_line ''@enduml'' (g\<lparr>lines := lines g @ relations g\<rparr>)))"
    by (simp add: generateFromRoot_gen_def b Let_def del: processNamespace.simps
        split: sum.splits error.splits)
  have e: "\<exists>body. lines g = lines initial_gen @ body @ relations g @ [''@enduml'']
                  \<and> list_all block_line body
                  \<and> (\<forall>l \<in> set body. \<not> startsWith l ''package'')"
    if h: "generateFromRoot_gen p (Some root) (Some packageName) = Inr g" for g
  proof -
    from h obtain ga where ns: "processNamespace p root [] initial_gen = Inr ga"
      and g: "g = push_line ''@enduml'' (ga\<lparr>lines := lines ga @ relations ga\<rparr>)"
      unfolding d by (auto simp del: processNamespace.simps split: sum.splits error.splits)
    from ns have "lines_added initial_gen ga" by (rule processNamespace_added(1))
    then obtain body where body: "lines ga = lines initial_gen @ body" "list_all block_line body"
      unfolding lines_added_def by blast
    have "lines g = lines initial_gen @ body @ relations g @ [''@enduml'']"
      by (simp add: g push_line_def body(1))
    moreover have "\<forall>l \<in> set body. \<not> startsWith l ''package''"
      using body(2) by (auto simp: list_all_iff dest: block_line_not_package)
    ultimately show ?thesis using body(2) by blast
  qed
  from a c d e show ?thesis by blast
qed

lemma package_a_no_package:
  "generateFromRoot package_a_parser (Some package_a_root) None
     = Inr (join_array [CHR 0x0A]
         [''@startuml'', ''!pragma useIntermediatePackages false'',
          ''skinparam componentStyle rectangle'',
          ''object User {'', ''  name : string'', ''  age : int32'', ''}'', ''@enduml''])"
  by code_simp

theorem short_package_not_wrapped_witness:
  "generateFromRoot package_a_parser (Some package_a_root) (Some ''a'')
     = Inr (join_array [CHR 0x0A]
         [''@startuml'', ''!pragma useIntermediatePackages false'',
          ''skinparam componentStyle rectangle'',
          ''object User {'', ''  name : string'', ''  age : int32'', ''}'', ''@enduml''])"
proof -
  have 1: "length (split_on CHR ''.'' ''a'') \<le> 2" by code_simp
  have 2: "toLowerCase (last (split_on CHR ''.'' ''a'')) \<notin> set meaningfulNames" by code_simp
  have 3: "countContentAtLevels package_a_root \<le> 1" by code_simp
  from short_package_not_wrapped [OF 1 2 3, of package_a_parser]
  have "generateFromRoot package_a_parser (Some package_a_root) (Some ''a'')
        = generateFromRoot package_a_parser (Some package_a_root) None"
    by (rule conjunct2 [THEN conjunct1])
  then show ?thesis by (simp only: package_a_no_package)
qed

text \<open>
  The claim as stated fails when two namespace levels have direct content: the package
  path \<open>a.b\<close> has 2 segments and \<open>b\<close> is not a meaningful name, and the diagram has the
  package block.
\<close>

theorem short_package_wrapped_counterexample:
  "length (split_on CHR ''.'' ''a.b'') \<le> 2
   \<and> toLowerCase (last (split_on CHR ''.'' ''a.b'')) \<notin> set meaningfulNames
   \<and> countContentAtLevels two_level_root = 2
   \<and> map_sum id lines (generateFromRoot_gen two_level_parser (Some two_level_root) (Some ''a.b''))
       = Inr [''@startuml'', ''!pragma useIntermediatePackages false'',
              ''skinparam componentStyle rectangle'',
              ''package '' @ [dq] @ ''a.b'' @ [dq] @ '' {'',
              ''object Outer {'', ''}'', ''object Inner {'', ''}'', ''}'', ''@enduml'']"
  by code_simp

section \<open>Relationship lines are unique and keep their order\<close>






























end
